theory Spec2Isabelle
  imports Complex_Main "HOL-Library.Log_Nat"
begin

section \<open>JavaScript numbers\<close>

text \<open>
  Every number of the program is an IEEE 754 binary64 value. A finite one is modelled by
  the rational it denotes, \<open>NaN\<close> stands for NaN and for \<open>undefined\<close> (which every
  arithmetic operation of the program converts to NaN). The infinities are left out:
  the only one the program names is the start of \<open>minDistance\<close>, modelled by \<open>None\<close>.

  Each arithmetic operation returns the exact result rounded to the nearest binary64
  value, ties to even: \<open>fl\<close>. The significand has 53 bits, so \<open>fl q\<close> scales \<open>q\<close> by the
  power of two that brings its magnitude into \<open>[2^52, 2^53)\<close>, rounds to an integer and
  scales back. The exponent range is not bounded (no overflow, no subnormal numbers).
\<close>

datatype jsnum = Num rat | NaN

definition rhe :: "rat \<Rightarrow> int" where
  \<comment> \<open>round to the nearest integer, a tie to the even neighbour\<close>
  "rhe q = (let f = \<lfloor>q\<rfloor> in
     if of_int f + 1 / 2 < q then f + 1
     else if q < of_int f + 1 / 2 then f
     else if even f then f else f + 1)"

definition ilog2 :: "rat \<Rightarrow> int" where
  \<comment> \<open>for \<open>0 < q\<close>: the integer \<open>k\<close> with \<open>2^k \<le> q < 2^(k+1)\<close>\<close>
  "ilog2 q = (if 1 \<le> q then int (floorlog 2 (nat \<lfloor>q\<rfloor>)) - 1
              else - int (floorlog 2 (nat (\<lceil>1 / q\<rceil> - 1))))"

definition fl :: "rat \<Rightarrow> rat" where
  "fl q = (if q = 0 then 0 else
     let e = ilog2 \<bar>q\<bar> - 52
     in of_int (rhe (q * 2 powi (- e))) * 2 powi e)"

fun jadd :: "jsnum \<Rightarrow> jsnum \<Rightarrow> jsnum" where
  "jadd (Num a) (Num b) = Num (fl (a + b))"
| "jadd _ _ = NaN"

fun jsub :: "jsnum \<Rightarrow> jsnum \<Rightarrow> jsnum" where
  "jsub (Num a) (Num b) = Num (fl (a - b))"
| "jsub _ _ = NaN"

fun jmul :: "jsnum \<Rightarrow> jsnum \<Rightarrow> jsnum" where
  "jmul (Num a) (Num b) = Num (fl (a * b))"
| "jmul _ _ = NaN"

fun jdiv :: "jsnum \<Rightarrow> jsnum \<Rightarrow> jsnum" where
  \<comment> \<open>the program divides by the literals 16 and 64 only\<close>
  "jdiv (Num a) (Num b) = (if b = 0 then NaN else Num (fl (a / b)))"
| "jdiv _ _ = NaN"

fun jlt :: "jsnum \<Rightarrow> jsnum \<Rightarrow> bool" where
  \<comment> \<open>\<open>a < b\<close>: false as soon as one side is NaN\<close>
  "jlt (Num a) (Num b) = (a < b)"
| "jlt _ _ = False"

fun Math_max :: "jsnum \<Rightarrow> jsnum \<Rightarrow> jsnum" where
  "Math_max (Num a) (Num b) = Num (max a b)"
| "Math_max _ _ = NaN"

fun Math_min :: "jsnum \<Rightarrow> jsnum \<Rightarrow> jsnum" where
  "Math_min (Num a) (Num b) = Num (min a b)"
| "Math_min _ _ = NaN"

fun isNaN :: "jsnum \<Rightarrow> bool" where
  "isNaN NaN = True"
| "isNaN (Num a) = False"

subsection \<open>Uint8ClampedArray\<close>

text \<open>
  A \<open>Uint8ClampedArray\<close> is the list of its elements. A store converts the number with
  the platform's ToUint8Clamp: NaN becomes 0, the number is clamped to \<open>[0, 255]\<close> and
  rounded to the nearest integer, a tie to the even one. A read past the end gives
  \<open>undefined\<close>, a store past the end is ignored.
\<close>

fun toUint8Clamp :: "jsnum \<Rightarrow> nat" where
  "toUint8Clamp NaN = 0"
| "toUint8Clamp (Num q) = (if q \<le> 0 then 0 else if 255 \<le> q then 255 else nat (rhe q))"

definition get :: "nat list \<Rightarrow> nat \<Rightarrow> jsnum" where
  "get a i = (if i < length a then Num (of_nat (a ! i)) else NaN)"

definition put :: "nat list \<Rightarrow> nat \<Rightarrow> jsnum \<Rightarrow> nat list" where
  "put a i v = a[i := toUint8Clamp v]"

definition Uint8ClampedArray_from :: "nat list \<Rightarrow> nat list" where
  \<comment> \<open>\<open>new Uint8ClampedArray(source)\<close>: a copy, each element converted\<close>
  "Uint8ClampedArray_from a = map (\<lambda>v. toUint8Clamp (Num (of_nat v))) a"

definition Uint8ClampedArray_new :: "nat \<Rightarrow> nat list" where
  \<comment> \<open>\<open>new Uint8ClampedArray(length)\<close>: zeros\<close>
  "Uint8ClampedArray_new n = replicate n 0"

section \<open>ColorPalettes\<close>

text \<open>
  A colour is a JavaScript array of numbers. Where the program tests a value for
  truthiness (\<open>!color\<close>, \<open>!palette\<close>, \<open>!closestColor\<close>), \<open>None\<close> is the falsy value
  (\<open>null\<close>, \<open>undefined\<close>) and \<open>Some\<close> an array.
\<close>

type_synonym color = "jsnum list"

definition black :: color where
  "black = [Num 0, Num 0, Num 0]"

definition white :: color where
  "white = [Num 255, Num 255, Num 255]"

definition monochrome :: "color option list" where
  "monochrome = [Some [Num 0, Num 0, Num 0], Some [Num 255, Num 255, Num 255]]"

definition cga :: "color option list" where
  "cga = [Some [Num 0, Num 0, Num 0], Some [Num 85, Num 255, Num 255],
          Some [Num 255, Num 85, Num 255], Some [Num 255, Num 255, Num 255]]"

definition distance :: "jsnum \<Rightarrow> jsnum \<Rightarrow> jsnum \<Rightarrow> color \<Rightarrow> jsnum" where
  "distance r g b color =
     (let dr = jsub r (color ! 0);
          dg = jsub g (color ! 1);
          db = jsub b (color ! 2)
      in jadd (jadd (jmul dr dr) (jmul dg dg)) (jmul db db))"

fun below :: "jsnum \<Rightarrow> jsnum option \<Rightarrow> bool" where
  \<comment> \<open>\<open>distance < minDistance\<close>; \<open>None\<close> is \<open>Infinity\<close>\<close>
  "below NaN m = False"
| "below (Num d) None = True"
| "below (Num d) (Some m) = jlt (Num d) m"

fun closest_loop ::
  "jsnum \<Rightarrow> jsnum \<Rightarrow> jsnum \<Rightarrow> color option list \<Rightarrow> jsnum option \<times> color option
     \<Rightarrow> jsnum option \<times> color option" where
  "closest_loop r g b [] (minDistance, closestColor) = (minDistance, closestColor)"
| "closest_loop r g b (color # rest) (minDistance, closestColor) =
     (case color of
        None \<Rightarrow> closest_loop r g b rest (minDistance, closestColor)
      | Some c \<Rightarrow>
          if length c < 3 then closest_loop r g b rest (minDistance, closestColor)
          else if below (distance r g b c) minDistance
            then closest_loop r g b rest (Some (distance r g b c), color)
            else closest_loop r g b rest (minDistance, closestColor))"

definition findClosestColor ::
  "jsnum \<Rightarrow> jsnum \<Rightarrow> jsnum \<Rightarrow> color option list option \<Rightarrow> color option" where
  \<comment> \<open>No operation inside the \<open>try\<close> block throws on arrays of numbers, so its
      \<open>catch\<close> branch has no counterpart.\<close>
  "findClosestColor r g b palette =
     (case palette of
        None \<Rightarrow> Some [Num 0, Num 0, Num 0]
      | Some [] \<Rightarrow> Some [Num 0, Num 0, Num 0]
      | Some (first # rest) \<Rightarrow> snd (closest_loop r g b (first # rest) (None, first)))"

definition gray :: "jsnum \<Rightarrow> jsnum \<Rightarrow> jsnum \<Rightarrow> jsnum" where
  \<comment> \<open>\<open>0.299 * r + 0.587 * g + 0.114 * b\<close>; a decimal literal denotes the nearest
      binary64 value\<close>
  "gray r g b =
     jadd (jadd (jmul (Num (fl (299 / 1000))) r) (jmul (Num (fl (587 / 1000))) g))
          (jmul (Num (fl (114 / 1000))) b)"

definition findClosestMonochromeColor :: "jsnum \<Rightarrow> jsnum \<Rightarrow> jsnum \<Rightarrow> jsnum \<Rightarrow> color" where
  "findClosestMonochromeColor r g b threshold =
     (let validThreshold = (if isNaN threshold then Num 128 else threshold)
      in if jlt (gray r g b) validThreshold
         then [Num 0, Num 0, Num 0] else [Num 255, Num 255, Num 255])"

section \<open>Dithering\<close>

text \<open>
  Modelled from the spec: \<open>ImageData\<close>, the platform's pixel buffer, is the spec's
  PixelBuffer: a width, a height and the row-major RGBA bytes; channel \<open>c\<close> of pixel
  \<open>(x, y)\<close> is at index \<open>(y * width + x) * 4 + c\<close>. Its constructor is the record
  constructor.
\<close>

record ImageData =
  width :: nat
  height :: nat
  data :: "nat list"

datatype error =
    InvalidParameters  \<comment> \<open>\<open>Invalid parameters for ... dithering\<close>\<close>
  | InvalidColor       \<comment> \<open>\<open>Invalid color returned from palette\<close>\<close>
  | Failed error       \<comment> \<open>\<open>Failed to apply ... dithering: \<close> and the caught message\<close>

text \<open>
  The parameter \<open>findClosestColor\<close> of the three transforms is named \<open>resolve\<close> here,
  apart from the function \<open>ColorPalettes.findClosestColor\<close>.
\<close>

type_synonym resolver = "jsnum \<Rightarrow> jsnum \<Rightarrow> jsnum \<Rightarrow> color option"

subsection \<open>floydSteinberg\<close>

definition add_error :: "nat list \<Rightarrow> nat \<Rightarrow> jsnum \<Rightarrow> jsnum \<Rightarrow> jsnum \<Rightarrow> rat \<Rightarrow> nat list" where
  \<comment> \<open>the three statements \<open>data[j + c] += error * k / 16\<close> of one neighbour\<close>
  "add_error dat j errorR errorG errorB k =
     (let dat = put dat j (jadd (get dat j) (jdiv (jmul errorR (Num k)) (Num 16)));
          dat = put dat (j + 1) (jadd (get dat (j + 1)) (jdiv (jmul errorG (Num k)) (Num 16)));
          dat = put dat (j + 2) (jadd (get dat (j + 2)) (jdiv (jmul errorB (Num k)) (Num 16)))
      in dat)"

definition fs_pixel ::
  "resolver \<Rightarrow> nat \<Rightarrow> nat \<Rightarrow> nat \<Rightarrow> nat \<Rightarrow> nat list \<times> nat list \<Rightarrow> error + nat list \<times> nat list" where
  \<comment> \<open>the body of the inner loop; the state is \<open>(data, output)\<close>\<close>
  "fs_pixel resolve w h y x s =
     (case s of (dat, out) \<Rightarrow>
        let idx = (y * w + x) * 4;
            r = get dat idx;
            g = get dat (idx + 1);
            b = get dat (idx + 2)
        in case resolve r g b of
             None \<Rightarrow> Inl InvalidColor
           | Some closestColor \<Rightarrow>
               if length closestColor < 3 then Inl InvalidColor
               else
                 let out = put out idx (closestColor ! 0);
                     out = put out (idx + 1) (closestColor ! 1);
                     out = put out (idx + 2) (closestColor ! 2);
                     out = put out (idx + 3) (get dat (idx + 3));
                     errorR = jsub r (closestColor ! 0);
                     errorG = jsub g (closestColor ! 1);
                     errorB = jsub b (closestColor ! 2);
                     dat = (if x + 1 < w
                            then add_error dat ((y * w + x + 1) * 4) errorR errorG errorB 7
                            else dat);
                     dat = (if 0 \<le> int x - 1 \<and> y + 1 < h
                            then add_error dat (((y + 1) * w + x - 1) * 4) errorR errorG errorB 3
                            else dat);
                     dat = (if y + 1 < h
                            then add_error dat (((y + 1) * w + x) * 4) errorR errorG errorB 5
                            else dat);
                     dat = (if x + 1 < w \<and> y + 1 < h
                            then add_error dat (((y + 1) * w + x + 1) * 4) errorR errorG errorB 1
                            else dat)
                 in Inr (dat, out))"

function fs_cols ::
  "resolver \<Rightarrow> nat \<Rightarrow> nat \<Rightarrow> nat \<Rightarrow> nat \<Rightarrow> nat list \<times> nat list \<Rightarrow> error + nat list \<times> nat list" where
  \<comment> \<open>\<open>for (let x = ...; x < width; x++)\<close>\<close>
  "fs_cols f w h y x s =
     (if x < w
      then (case fs_pixel f w h y x s of Inl e \<Rightarrow> Inl e | Inr s' \<Rightarrow> fs_cols f w h y (x + 1) s')
      else Inr s)"
  by pat_completeness auto
termination
  by (relation "measure (\<lambda>(f, w, h, y, x, s). w - x)") auto

declare fs_cols.simps [simp del]

function fs_rows ::
  "resolver \<Rightarrow> nat \<Rightarrow> nat \<Rightarrow> nat \<Rightarrow> nat list \<times> nat list \<Rightarrow> error + nat list \<times> nat list" where
  \<comment> \<open>\<open>for (let y = ...; y < height; y++)\<close>\<close>
  "fs_rows f w h y s =
     (if y < h
      then (case fs_cols f w h y 0 s of Inl e \<Rightarrow> Inl e | Inr s' \<Rightarrow> fs_rows f w h (y + 1) s')
      else Inr s)"
  by pat_completeness auto
termination
  by (relation "measure (\<lambda>(f, w, h, y, s). h - y)") auto

declare fs_rows.simps [simp del]

definition floydSteinberg :: "ImageData option \<Rightarrow> resolver option \<Rightarrow> error + ImageData" where
  "floydSteinberg imageData resolve =
     (case (imageData, resolve) of
        (Some img, Some f) \<Rightarrow>
          (let w = width img;
               h = height img;
               dat = Uint8ClampedArray_from (data img);
               out = Uint8ClampedArray_from dat
           in case fs_rows f w h 0 (dat, out) of
                Inl e \<Rightarrow> Inl (Failed e)
              | Inr (dat', out') \<Rightarrow> Inr \<lparr>width = w, height = h, data = out'\<rparr>)
      | _ \<Rightarrow> Inl InvalidParameters)"

subsection \<open>bayer and ordered\<close>

text \<open>
  The two functions differ in the matrix and its size only; their common loops take the
  normalized matrix and the modulus as parameters.
\<close>

definition bayerMatrix :: "nat list list" where
  "bayerMatrix =
     [[0, 48, 12, 60, 3, 51, 15, 63],
      [32, 16, 44, 28, 35, 19, 47, 31],
      [8, 56, 4, 52, 11, 59, 7, 55],
      [40, 24, 36, 20, 43, 27, 39, 23],
      [2, 50, 14, 62, 1, 49, 13, 61],
      [34, 18, 46, 30, 33, 17, 45, 29],
      [10, 58, 6, 54, 9, 57, 5, 53],
      [42, 26, 38, 22, 41, 25, 37, 21]]"

definition orderedMatrix :: "nat list list" where
  "orderedMatrix =
     [[0, 8, 2, 10],
      [12, 4, 14, 6],
      [3, 11, 1, 9],
      [15, 7, 13, 5]]"

definition normalize :: "rat \<Rightarrow> nat list list \<Rightarrow> jsnum list list" where
  \<comment> \<open>\<open>matrix.map(row => row.map(val => (val + 0.5) / n2 - 0.5))\<close>\<close>
  "normalize n2 matrix =
     map (map (\<lambda>val. jsub (jdiv (jadd (Num (of_nat val)) (Num (1 / 2))) (Num n2)) (Num (1 / 2))))
       matrix"

definition adjust :: "jsnum \<Rightarrow> jsnum \<Rightarrow> jsnum" where
  \<comment> \<open>\<open>Math.min(255, Math.max(0, v + threshold))\<close>\<close>
  "adjust v threshold = Math_min (Num 255) (Math_max (Num 0) (jadd v threshold))"

definition matrix_pixel ::
  "jsnum list list \<Rightarrow> nat \<Rightarrow> resolver \<Rightarrow> nat \<Rightarrow> nat list \<Rightarrow> nat \<Rightarrow> nat \<Rightarrow> nat list
     \<Rightarrow> error + nat list" where
  \<comment> \<open>the body of the inner loop; the state is \<open>output\<close>\<close>
  "matrix_pixel normalizedMatrix n resolve w dat y x out =
     (let idx = (y * w + x) * 4;
          r = get dat idx;
          g = get dat (idx + 1);
          b = get dat (idx + 2);
          threshold = jmul (normalizedMatrix ! (y mod n) ! (x mod n)) (Num 255);
          adjustedR = adjust r threshold;
          adjustedG = adjust g threshold;
          adjustedB = adjust b threshold
      in case resolve adjustedR adjustedG adjustedB of
           None \<Rightarrow> Inl InvalidColor
         | Some closestColor \<Rightarrow>
             if length closestColor < 3 then Inl InvalidColor
             else
               let out = put out idx (closestColor ! 0);
                   out = put out (idx + 1) (closestColor ! 1);
                   out = put out (idx + 2) (closestColor ! 2);
                   out = put out (idx + 3) (get dat (idx + 3))
               in Inr out)"

function matrix_cols ::
  "jsnum list list \<Rightarrow> nat \<Rightarrow> resolver \<Rightarrow> nat \<Rightarrow> nat list \<Rightarrow> nat \<Rightarrow> nat \<Rightarrow> nat list
     \<Rightarrow> error + nat list" where
  "matrix_cols nm n f w dat y x out =
     (if x < w
      then (case matrix_pixel nm n f w dat y x out of
              Inl e \<Rightarrow> Inl e
            | Inr out' \<Rightarrow> matrix_cols nm n f w dat y (x + 1) out')
      else Inr out)"
  by pat_completeness auto
termination
  by (relation "measure (\<lambda>(nm, n, f, w, dat, y, x, out). w - x)") auto

declare matrix_cols.simps [simp del]

function matrix_rows ::
  "jsnum list list \<Rightarrow> nat \<Rightarrow> resolver \<Rightarrow> nat \<Rightarrow> nat \<Rightarrow> nat list \<Rightarrow> nat \<Rightarrow> nat list
     \<Rightarrow> error + nat list" where
  "matrix_rows nm n f w h dat y out =
     (if y < h
      then (case matrix_cols nm n f w dat y 0 out of
              Inl e \<Rightarrow> Inl e
            | Inr out' \<Rightarrow> matrix_rows nm n f w h dat (y + 1) out')
      else Inr out)"
  by pat_completeness auto
termination
  by (relation "measure (\<lambda>(nm, n, f, w, h, dat, y, out). h - y)") auto

declare matrix_rows.simps [simp del]

definition matrix_dither ::
  "jsnum list list \<Rightarrow> nat \<Rightarrow> ImageData option \<Rightarrow> resolver option \<Rightarrow> error + ImageData" where
  "matrix_dither normalizedMatrix n imageData resolve =
     (case (imageData, resolve) of
        (Some img, Some f) \<Rightarrow>
          (let w = width img;
               h = height img;
               dat = data img;
               out = Uint8ClampedArray_new (length dat)
           in case matrix_rows normalizedMatrix n f w h dat 0 out of
                Inl e \<Rightarrow> Inl (Failed e)
              | Inr out' \<Rightarrow> Inr \<lparr>width = w, height = h, data = out'\<rparr>)
      | _ \<Rightarrow> Inl InvalidParameters)"

definition bayer :: "ImageData option \<Rightarrow> resolver option \<Rightarrow> error + ImageData" where
  "bayer imageData resolve =
     matrix_dither (normalize 64 bayerMatrix) 8 imageData resolve"

definition ordered :: "ImageData option \<Rightarrow> resolver option \<Rightarrow> error + ImageData" where
  "ordered imageData resolve =
     matrix_dither (normalize 16 orderedMatrix) 4 imageData resolve"

subsection \<open>The application's resolvers and the worked scenario\<close>

definition monochromeFn :: "jsnum \<Rightarrow> resolver" where
  \<comment> \<open>\<open>(r, g, b) => ColorPalettes.findClosestMonochromeColor(r, g, b, threshold)\<close>\<close>
  "monochromeFn threshold = (\<lambda>r g b. Some (findClosestMonochromeColor r g b threshold))"

definition paletteFn :: "color option list \<Rightarrow> resolver" where
  \<comment> \<open>\<open>(r, g, b) => ColorPalettes.findClosestColor(r, g, b, colorPalette)\<close>\<close>
  "paletteFn colorPalette = (\<lambda>r g b. findClosestColor r g b (Some colorPalette))"

definition uniform_gray :: ImageData where
  \<comment> \<open>the 2 x 2 image whose pixels are all \<open>(128, 128, 128, 255)\<close>\<close>
  "uniform_gray = \<lparr>width = 2, height = 2,
     data = [128, 128, 128, 255, 128, 128, 128, 255, 128, 128, 128, 255, 128, 128, 128, 255]\<rparr>"

definition one_pixel :: ImageData where
  \<comment> \<open>a 1 x 1 image\<close>
  "one_pixel = \<lparr>width = 1, height = 1, data = [200, 150, 130, 40]\<rparr>"

definition identityFn :: resolver where
  \<comment> \<open>a resolver that returns the colour it is given\<close>
  "identityFn = (\<lambda>r g b. Some [r, g, b])"

definition two_pixels_a :: ImageData where
  "two_pixels_a = \<lparr>width = 2, height = 1, data = [200, 150, 130, 40, 1, 2, 3, 4]\<rparr>"

definition two_pixels_b :: ImageData where
  \<comment> \<open>as \<open>two_pixels_a\<close> at \<open>(0, 0)\<close>, different at \<open>(1, 0)\<close>\<close>
  "two_pixels_b = \<lparr>width = 2, height = 1, data = [200, 150, 130, 40, 9, 9, 9, 9]\<rparr>"

definition wildFn :: resolver where
  \<comment> \<open>a resolver whose answer has four entries, out of range and fractional\<close>
  "wildFn = (\<lambda>r g b. Some [Num 300, Num (- 20), Num (5 / 2), Num 7])"

definition nullFn :: resolver where
  \<comment> \<open>a resolver that answers \<open>null\<close>\<close>
  "nullFn = (\<lambda>r g b. None)"

section \<open>The algorithms in the words of the specification\<close>

text \<open>
  The definitions of this section follow the specification, not the code; the theorems
  below compare them with the functions above.
\<close>

fun visit :: "('p \<Rightarrow> 's \<Rightarrow> error + 's) \<Rightarrow> 'p list \<Rightarrow> 's \<Rightarrow> error + 's" where
  \<comment> \<open>visit the pixels of a list in its order; the first error ends the pass\<close>
  "visit step [] s = Inr s"
| "visit step (p # ps) s = (case step p s of Inl e \<Rightarrow> Inl e | Inr s' \<Rightarrow> visit step ps s')"

definition row_major :: "nat \<Rightarrow> nat \<Rightarrow> (nat \<times> nat) list" where
  \<comment> \<open>the coordinates \<open>(x, y)\<close>: \<open>y\<close> outer ascending, \<open>x\<close> inner ascending\<close>
  "row_major w h = concat (map (\<lambda>y. map (\<lambda>x. (x, y)) [0..<w]) [0..<h])"

definition channel :: "nat list \<Rightarrow> nat \<Rightarrow> nat \<Rightarrow> nat \<Rightarrow> nat \<Rightarrow> jsnum" where
  \<comment> \<open>channel \<open>c\<close> of pixel \<open>(x, y)\<close>\<close>
  "channel buf w x y c = get buf ((y * w + x) * 4 + c)"

definition write_pixel :: "nat list \<Rightarrow> nat \<Rightarrow> nat \<Rightarrow> nat \<Rightarrow> jsnum list \<Rightarrow> nat list" where
  \<comment> \<open>store the four channels of pixel \<open>(x, y)\<close>\<close>
  "write_pixel out w x y vals =
     foldl (\<lambda>buf c. put buf ((y * w + x) * 4 + c) (vals ! c)) out [0, 1, 2, 3]"

definition pixel :: "nat list \<Rightarrow> nat \<Rightarrow> nat \<Rightarrow> nat \<Rightarrow> nat list" where
  \<comment> \<open>the four bytes of pixel \<open>(x, y)\<close>\<close>
  "pixel buf w x y = map (\<lambda>c. buf ! ((y * w + x) * 4 + c)) [0, 1, 2, 3]"

definition valid_ImageData :: "ImageData \<Rightarrow> bool" where
  \<comment> \<open>the invariant of a PixelBuffer: the length matches, the values are bytes\<close>
  "valid_ImageData img =
     (length (data img) = width img * height img * 4 \<and> list_all (\<lambda>v. v \<le> 255) (data img))"

definition unusable :: "color option \<Rightarrow> bool" where
  \<comment> \<open>what the code rejects: a missing value, or fewer than three channels\<close>
  "unusable c = (case c of None \<Rightarrow> True | Some a \<Rightarrow> length a < 3)"

fun in_byte_range :: "jsnum \<Rightarrow> bool" where
  "in_byte_range (Num q) = (0 \<le> q \<and> q \<le> 255)"
| "in_byte_range NaN = False"

definition malformed :: "color option \<Rightarrow> bool" where
  \<comment> \<open>what the specification calls malformed: anything but exactly three channel
      values in \<open>[0, 255]\<close>\<close>
  "malformed c =
     (case c of None \<Rightarrow> True | Some a \<Rightarrow> \<not> (length a = 3 \<and> list_all in_byte_range a))"

definition stored :: "color \<Rightarrow> nat \<Rightarrow> nat list" where
  \<comment> \<open>the bytes a pixel holds once the colour \<open>c\<close> and the alpha byte \<open>a\<close> are stored\<close>
  "stored c a = [toUint8Clamp (c ! 0), toUint8Clamp (c ! 1), toUint8Clamp (c ! 2), a]"

definition threshold_at :: "jsnum list list \<Rightarrow> nat \<Rightarrow> nat \<Rightarrow> nat \<Rightarrow> jsnum" where
  \<comment> \<open>the threshold the code computes at \<open>(x, y)\<close>\<close>
  "threshold_at nm n x y = jmul (nm ! (y mod n) ! (x mod n)) (Num 255)"

definition resolved_at ::
  "jsnum list list \<Rightarrow> nat \<Rightarrow> resolver \<Rightarrow> nat \<Rightarrow> nat list \<Rightarrow> nat \<Rightarrow> nat \<Rightarrow> color option" where
  \<comment> \<open>the resolver's answer for pixel \<open>(x, y)\<close> of the source buffer \<open>dat\<close>\<close>
  "resolved_at nm n f w dat x y =
     f (adjust (get dat ((y * w + x) * 4)) (threshold_at nm n x y))
       (adjust (get dat ((y * w + x) * 4 + 1)) (threshold_at nm n x y))
       (adjust (get dat ((y * w + x) * 4 + 2)) (threshold_at nm n x y))"

definition offset :: "nat list list \<Rightarrow> nat \<Rightarrow> nat \<Rightarrow> nat \<Rightarrow> rat" where
  \<comment> \<open>\<open>((M[y mod N][x mod N] + 0.5) / N^2 - 0.5) * 255\<close>, in exact arithmetic\<close>
  "offset M n x y =
     ((of_nat (M ! (y mod n) ! (x mod n)) + 1 / 2) / of_nat (n * n) - 1 / 2) * 255"

definition adjusted :: "nat list list \<Rightarrow> nat \<Rightarrow> nat \<Rightarrow> nat \<Rightarrow> nat \<Rightarrow> jsnum" where
  \<comment> \<open>\<open>clamp(original + offset, 0, 255)\<close>, in exact arithmetic\<close>
  "adjusted M n x y original = Num (min 255 (max 0 (of_nat original + offset M n x y)))"

definition dither_in_order ::
  "jsnum list list \<Rightarrow> nat \<Rightarrow> (nat \<times> nat) list \<Rightarrow> ImageData \<Rightarrow> resolver \<Rightarrow> error + ImageData" where
  \<comment> \<open>the ordered transform with the pixels visited in the order of the list \<open>ps\<close>\<close>
  "dither_in_order normalizedMatrix n ps img resolve =
     (case visit (\<lambda>(x, y). matrix_pixel normalizedMatrix n resolve (width img) (data img) y x) ps
             (Uint8ClampedArray_new (length (data img))) of
        Inl e \<Rightarrow> Inl (Failed e)
      | Inr out \<Rightarrow> Inr \<lparr>width = width img, height = height img, data = out\<rparr>)"

definition neighbours :: "nat \<Rightarrow> nat \<Rightarrow> nat \<Rightarrow> nat \<Rightarrow> ((int \<times> int) \<times> rat) list" where
  \<comment> \<open>the neighbours of \<open>(x, y)\<close> that lie in the image, each with its weight in
      sixteenths: right, below-left, below, below-right\<close>
  "neighbours w h x y =
     filter (\<lambda>((x', y'), k). 0 \<le> x' \<and> x' < int w \<and> 0 \<le> y' \<and> y' < int h)
       [((int x + 1, int y), 7), ((int x - 1, int y + 1), 3),
        ((int x, int y + 1), 5), ((int x + 1, int y + 1), 1)]"

definition spread :: "nat \<Rightarrow> jsnum list \<Rightarrow> nat list \<Rightarrow> (int \<times> int) \<times> rat \<Rightarrow> nat list" where
  \<comment> \<open>add \<open>k/16\<close> of the error to the three colour channels of one neighbour; each
      sum is rounded and clamped by the store\<close>
  "spread w err work t =
     (case t of ((x', y'), k) \<Rightarrow>
        foldl (\<lambda>buf c. put buf ((nat y' * w + nat x') * 4 + c)
                 (jadd (channel buf w (nat x') (nat y') c) (jdiv (jmul (err ! c) (Num k)) (Num 16))))
          work [0, 1, 2])"

definition diffuse_pixel ::
  "resolver \<Rightarrow> nat \<Rightarrow> nat \<Rightarrow> nat \<times> nat \<Rightarrow> nat list \<times> nat list \<Rightarrow> error + nat list \<times> nat list" where
  "diffuse_pixel resolve w h p s =
     (case (p, s) of ((x, y), (work, out)) \<Rightarrow>
        let r = channel work w x y 0;
            g = channel work w x y 1;
            b = channel work w x y 2
        in case resolve r g b of
             None \<Rightarrow> Inl InvalidColor
           | Some chosen \<Rightarrow>
               if length chosen < 3 then Inl InvalidColor
               else Inr
                 (foldl (spread w [jsub r (chosen ! 0), jsub g (chosen ! 1), jsub b (chosen ! 2)])
                    work (neighbours w h x y),
                  write_pixel out w x y
                    [chosen ! 0, chosen ! 1, chosen ! 2, channel work w x y 3]))"

definition error_diffusion :: "ImageData \<Rightarrow> resolver \<Rightarrow> error + ImageData" where
  "error_diffusion img resolve =
     (let work = Uint8ClampedArray_from (data img)
      in case visit (diffuse_pixel resolve (width img) (height img))
                (row_major (width img) (height img)) (work, work) of
           Inl e \<Rightarrow> Inl (Failed e)
         | Inr (work', out) \<Rightarrow> Inr \<lparr>width = width img, height = height img, data = out\<rparr>)"



section \<open>Binary64 rounding\<close>

lemma rhe_of_int: "rhe (of_int m) = m"
  by (simp add: rhe_def)

lemma ilog2_lower:
  assumes "0 < q"
  shows "2 powi (ilog2 q) \<le> q"
proof (cases "1 \<le> q")
  case True
  define n where "n = nat \<lfloor>q\<rfloor>"
  have n: "0 < n" using True by (simp add: n_def)
  have "2 ^ (floorlog 2 n - 1) \<le> n"
    using floorlog_bounds[of n 2] n by simp
  then have "(2::rat) ^ (floorlog 2 n - 1) \<le> of_nat n"
    by (metis of_nat_le_iff of_nat_numeral of_nat_power)
  also have "\<dots> \<le> q" using True by (simp add: n_def)
  finally have le: "(2::rat) ^ (floorlog 2 n - 1) \<le> q" .
  have "0 < floorlog 2 n" using n by (simp add: floorlog_def)
  then have "ilog2 q = int (floorlog 2 n - 1)"
    using True by (simp add: ilog2_def n_def)
  then show ?thesis using le by (simp add: power_int_def)
next
  case False
  define x where "x = 1 / q"
  define m where "m = nat (\<lceil>x\<rceil> - 1)"
  have x1: "1 < x" using False assms by (simp add: x_def)
  have "of_int 1 < x" using x1 by simp
  then have "1 < \<lceil>x\<rceil>" by (simp only: less_ceiling_iff)
  then have c2: "2 \<le> \<lceil>x\<rceil>" by simp
  then have m: "0 < m" by (simp add: m_def)
  have "m < 2 ^ floorlog 2 m" using floorlog_bounds[of m 2] m by simp
  then have "Suc m \<le> 2 ^ floorlog 2 m" by simp
  then have "(of_nat (Suc m)::rat) \<le> 2 ^ floorlog 2 m"
    by (metis of_nat_le_iff of_nat_numeral of_nat_power)
  moreover have "x \<le> of_nat (Suc m)"
  proof -
    have "int (Suc m) = \<lceil>x\<rceil>" using c2 by (simp add: m_def)
    then have "(of_nat (Suc m)::rat) = of_int \<lceil>x\<rceil>"
      by (metis of_int_of_nat_eq)
    then show ?thesis by (simp only: le_of_int_ceiling)
  qed
  ultimately have "x \<le> 2 ^ floorlog 2 m" by linarith
  then have "1 / 2 ^ floorlog 2 m \<le> q"
    using assms by (simp add: x_def field_simps)
  moreover have "ilog2 q = - int (floorlog 2 m)"
    using False by (simp add: ilog2_def m_def x_def)
  moreover have "(2::rat) powi (- int (floorlog 2 m)) = 1 / 2 ^ floorlog 2 m"
    by (simp add: power_int_minus field_simps)
  ultimately show ?thesis by simp
qed

text \<open>
  A multiple of a power of two whose integer factor has fewer than 54 bits is a binary64
  value: rounding leaves it as it is. The transforms compute such numbers only, as long
  as the resolver returns integers.
\<close>

lemma fl_exact:
  assumes "\<bar>n\<bar> < 2 ^ 53"
  shows "fl (of_int n * 2 powi k) = of_int n * 2 powi k"
proof (cases "n = 0")
  case True
  then show ?thesis by (simp add: fl_def)
next
  case False
  define q :: rat where "q = of_int n * 2 powi k"
  have q0: "q \<noteq> 0" using False by (simp add: q_def)
  have absq: "\<bar>q\<bar> = of_int \<bar>n\<bar> * 2 powi k" by (simp add: q_def abs_mult)
  have "of_int \<bar>n\<bar> < (2::rat) ^ 53" using assms
    by (metis of_int_less_iff of_int_numeral of_int_power)
  then have "\<bar>q\<bar> < 2 ^ 53 * 2 powi k" by (simp add: absq)
  also have "\<dots> = 2 powi (53 + k)" by (simp add: power_int_add)
  finally have up: "\<bar>q\<bar> < 2 powi (53 + k)" .
  have "2 powi (ilog2 \<bar>q\<bar>) \<le> \<bar>q\<bar>" using ilog2_lower[of "\<bar>q\<bar>"] q0 by simp
  with up have "(2::rat) powi (ilog2 \<bar>q\<bar>) < 2 powi (53 + k)" by linarith
  then have "ilog2 \<bar>q\<bar> < 53 + k"
    using power_int_increasing[of "53 + k" "ilog2 \<bar>q\<bar>" "2::rat"]
    by (cases "ilog2 \<bar>q\<bar> < 53 + k") auto
  then have "0 \<le> k - (ilog2 \<bar>q\<bar> - 52)" by simp
  then obtain d :: nat where d: "k - (ilog2 \<bar>q\<bar> - 52) = int d"
    using nonneg_int_cases by blast
  define e where "e = ilog2 \<bar>q\<bar> - 52"
  have "q * 2 powi (- e) = of_int n * 2 powi (k - e)"
    by (simp add: q_def power_int_diff power_int_minus field_simps)
  also have "\<dots> = of_int (n * 2 ^ d)" using d by (simp add: e_def)
  finally have "rhe (q * 2 powi (- e)) = n * 2 ^ d" by (simp only: rhe_of_int)
  moreover have "of_int (n * 2 ^ d) * 2 powi e = q"
  proof -
    have "(2::rat) ^ d = 2 powi (k - e)" using d by (simp add: e_def)
    then show ?thesis by (simp add: q_def power_int_diff)
  qed
  ultimately show ?thesis
    using q0 by (simp add: fl_def Let_def e_def[symmetric] q_def[symmetric])
qed

lemma fl_of_int: "\<bar>n\<bar> < 2 ^ 53 \<Longrightarrow> fl (of_int n) = of_int n"
  using fl_exact[of n 0] by simp

lemma rhe_lower: "\<lfloor>q\<rfloor> \<le> rhe q"
  by (simp add: rhe_def Let_def)

lemma rhe_upper: "rhe q \<le> \<lfloor>q\<rfloor> + 1"
  by (simp add: rhe_def Let_def)

lemma rhe_nearest: "\<bar>of_int (rhe q) - q\<bar> \<le> 1 / 2"
proof -
  have "of_int \<lfloor>q\<rfloor> \<le> q" "q < of_int \<lfloor>q\<rfloor> + 1" by linarith+
  then show ?thesis unfolding rhe_def Let_def by (simp add: abs_if) linarith
qed

declare toUint8Clamp.simps [simp del]

lemma toUint8Clamp_le: "toUint8Clamp v \<le> 255"
proof (cases v)
  case (Num q)
  show ?thesis
  proof (cases "q \<le> 0 \<or> 255 \<le> q")
    case True
    then show ?thesis using Num by (auto simp: toUint8Clamp.simps)
  next
    case False
    then have "\<lfloor>q\<rfloor> \<le> 254" by (simp add: floor_le_iff)
    with rhe_upper[of q] have "rhe q \<le> 255" by linarith
    then show ?thesis using Num False by (simp add: toUint8Clamp.simps)
  qed
qed (simp add: toUint8Clamp.simps)

lemma toUint8Clamp_of_nat: "toUint8Clamp (Num (of_nat v)) = min v 255"
proof -
  have "rhe (of_nat v) = int v" using rhe_of_int[of "int v"] by simp
  then show ?thesis by (auto simp: min_def toUint8Clamp.simps)
qed

lemma toUint8Clamp_byte: "v \<le> 255 \<Longrightarrow> toUint8Clamp (Num (of_nat v)) = v"
  by (simp add: toUint8Clamp_of_nat)

text \<open>Rewrite rules that evaluate the rounding of integers and binary fractions.\<close>

lemma fl_zero [simp]: "fl 0 = 0"
  by (simp add: fl_def)

lemma fl_one [simp]: "fl 1 = 1"
  using fl_of_int[of 1] by simp

lemma fl_dyadic:
  assumes "\<bar>n\<bar> < 2 ^ 53"
  shows "fl (of_int n / 2 ^ k) = of_int n / 2 ^ k"
  using fl_exact[OF assms, of "- int k"] by (simp add: power_int_minus field_simps)

lemma fl_numeral [simp]:
  assumes "numeral n < (9007199254740992::int)"
  shows "fl (numeral n) = numeral n" and "fl (- numeral n) = - numeral n"
proof -
  have a: "\<bar>numeral n :: int\<bar> < 2 ^ 53" "\<bar>- numeral n :: int\<bar> < 2 ^ 53"
    using assms by simp_all
  show "fl (numeral n) = numeral n" using fl_of_int[OF a(1)] by simp
  show "fl (- numeral n) = - numeral n" using fl_of_int[OF a(2)] by simp
qed

lemma fl_numeral_div2 [simp]:
  assumes "numeral n < (9007199254740992::int)"
  shows "fl (numeral n / 2) = numeral n / 2" and "fl (- (numeral n / 2)) = - (numeral n / 2)"
proof -
  have a: "\<bar>numeral n :: int\<bar> < 2 ^ 53" "\<bar>- numeral n :: int\<bar> < 2 ^ 53"
    using assms by simp_all
  show "fl (numeral n / 2) = numeral n / 2" using fl_dyadic[OF a(1), of 1] by simp
  show "fl (- (numeral n / 2)) = - (numeral n / 2)" using fl_dyadic[OF a(2), of 1] by simp
qed

lemma fl_numeral_div4 [simp]:
  assumes "numeral n < (9007199254740992::int)"
  shows "fl (numeral n / 4) = numeral n / 4" and "fl (- (numeral n / 4)) = - (numeral n / 4)"
proof -
  have a: "\<bar>numeral n :: int\<bar> < 2 ^ 53" "\<bar>- numeral n :: int\<bar> < 2 ^ 53"
    using assms by simp_all
  show "fl (numeral n / 4) = numeral n / 4" using fl_dyadic[OF a(1), of 2] by simp
  show "fl (- (numeral n / 4)) = - (numeral n / 4)" using fl_dyadic[OF a(2), of 2] by simp
qed

lemma fl_numeral_div8 [simp]:
  assumes "numeral n < (9007199254740992::int)"
  shows "fl (numeral n / 8) = numeral n / 8" and "fl (- (numeral n / 8)) = - (numeral n / 8)"
proof -
  have a: "\<bar>numeral n :: int\<bar> < 2 ^ 53" "\<bar>- numeral n :: int\<bar> < 2 ^ 53"
    using assms by simp_all
  show "fl (numeral n / 8) = numeral n / 8" using fl_dyadic[OF a(1), of 3] by simp
  show "fl (- (numeral n / 8)) = - (numeral n / 8)" using fl_dyadic[OF a(2), of 3] by simp
qed

lemma fl_numeral_div16 [simp]:
  assumes "numeral n < (9007199254740992::int)"
  shows "fl (numeral n / 16) = numeral n / 16" and "fl (- (numeral n / 16)) = - (numeral n / 16)"
proof -
  have a: "\<bar>numeral n :: int\<bar> < 2 ^ 53" "\<bar>- numeral n :: int\<bar> < 2 ^ 53"
    using assms by simp_all
  show "fl (numeral n / 16) = numeral n / 16" using fl_dyadic[OF a(1), of 4] by simp
  show "fl (- (numeral n / 16)) = - (numeral n / 16)" using fl_dyadic[OF a(2), of 4] by simp
qed

lemma fl_numeral_div32 [simp]:
  assumes "numeral n < (9007199254740992::int)"
  shows "fl (numeral n / 32) = numeral n / 32" and "fl (- (numeral n / 32)) = - (numeral n / 32)"
proof -
  have a: "\<bar>numeral n :: int\<bar> < 2 ^ 53" "\<bar>- numeral n :: int\<bar> < 2 ^ 53"
    using assms by simp_all
  show "fl (numeral n / 32) = numeral n / 32" using fl_dyadic[OF a(1), of 5] by simp
  show "fl (- (numeral n / 32)) = - (numeral n / 32)" using fl_dyadic[OF a(2), of 5] by simp
qed

lemma fl_numeral_div64 [simp]:
  assumes "numeral n < (9007199254740992::int)"
  shows "fl (numeral n / 64) = numeral n / 64" and "fl (- (numeral n / 64)) = - (numeral n / 64)"
proof -
  have a: "\<bar>numeral n :: int\<bar> < 2 ^ 53" "\<bar>- numeral n :: int\<bar> < 2 ^ 53"
    using assms by simp_all
  show "fl (numeral n / 64) = numeral n / 64" using fl_dyadic[OF a(1), of 6] by simp
  show "fl (- (numeral n / 64)) = - (numeral n / 64)" using fl_dyadic[OF a(2), of 6] by simp
qed

lemma fl_numeral_div128 [simp]:
  assumes "numeral n < (9007199254740992::int)"
  shows "fl (numeral n / 128) = numeral n / 128" and "fl (- (numeral n / 128)) = - (numeral n / 128)"
proof -
  have a: "\<bar>numeral n :: int\<bar> < 2 ^ 53" "\<bar>- numeral n :: int\<bar> < 2 ^ 53"
    using assms by simp_all
  show "fl (numeral n / 128) = numeral n / 128" using fl_dyadic[OF a(1), of 7] by simp
  show "fl (- (numeral n / 128)) = - (numeral n / 128)" using fl_dyadic[OF a(2), of 7] by simp
qed

lemma floor_rat_numeral_div [simp]:
  "\<lfloor>numeral a / numeral b :: rat\<rfloor> = numeral a div numeral b"
  "\<lfloor>- (numeral a / numeral b) :: rat\<rfloor> = - numeral a div numeral b"
proof -
  show "\<lfloor>numeral a / numeral b :: rat\<rfloor> = numeral a div numeral b"
    using floor_divide_of_int_eq[of "numeral a" "numeral b", where ?'a = rat] by simp
  show "\<lfloor>- (numeral a / numeral b) :: rat\<rfloor> = - numeral a div numeral b"
    using floor_divide_of_int_eq[of "- numeral a" "numeral b", where ?'a = rat] by simp
qed

text \<open>The arithmetic of the threshold matrices is exact.\<close>

lemma fl_eqI: "q = of_int n / 2 ^ k \<Longrightarrow> \<bar>n\<bar> < 2 ^ 53 \<Longrightarrow> fl q = q"
  using fl_dyadic[of n k] by simp

lemma normalize_entry_64:
  assumes "m \<le> 63"
  shows "jsub (jdiv (jadd (Num (of_nat m)) (Num (1 / 2))) (Num 64)) (Num (1 / 2)) =
           Num ((of_nat m + 1 / 2) / 64 - 1 / 2)"
proof -
  have b: "\<bar>2 * int m + 1\<bar> < 2 ^ 53" "\<bar>2 * int m + 1 - 64\<bar> < 2 ^ 53"
    using assms by simp_all
  have 1: "fl (of_nat m + 1 / 2) = of_nat m + 1 / 2"
    by (rule fl_eqI[OF _ b(1), of _ 1]) (simp add: field_simps)
  have 2: "fl ((of_nat m + 1 / 2) / 64) = (of_nat m + 1 / 2) / 64"
    by (rule fl_eqI[OF _ b(1), of _ 7]) (simp add: field_simps)
  have 3: "fl ((of_nat m + 1 / 2) / 64 - 1 / 2) = (of_nat m + 1 / 2) / 64 - 1 / 2"
    by (rule fl_eqI[OF _ b(2), of _ 7]) (simp add: field_simps)
  have "jadd (Num (of_nat m)) (Num (1 / 2)) = Num (of_nat m + 1 / 2)"
    by (simp only: jadd.simps 1)
  moreover have "jdiv (Num (of_nat m + 1 / 2)) (Num 64) = Num ((of_nat m + 1 / 2) / 64)"
    by (simp add: 2 del: of_nat_add)
  moreover have "jsub (Num ((of_nat m + 1 / 2) / 64)) (Num (1 / 2)) =
      Num ((of_nat m + 1 / 2) / 64 - 1 / 2)"
    by (simp only: jsub.simps 3)
  ultimately show ?thesis by (simp only:)
qed

lemma threshold_exact_64:
  assumes "m \<le> 63"
  shows "jmul (Num ((of_nat m + 1 / 2) / 64 - 1 / 2)) (Num 255) =
           Num (((of_nat m + 1 / 2) / 64 - 1 / 2) * 255)"
proof -
  have b: "\<bar>(2 * int m + 1 - 64) * 255\<bar> < 2 ^ 53"
    using assms by simp
  have "fl (((of_nat m + 1 / 2) / 64 - 1 / 2) * 255) = ((of_nat m + 1 / 2) / 64 - 1 / 2) * 255"
    by (rule fl_eqI[OF _ b, of _ 7]) (simp add: field_simps)
  then show ?thesis by (simp only: jmul.simps)
qed

lemma adjust_exact_64:
  assumes "m \<le> 63" "v \<le> 255"
  shows "adjust (Num (of_nat v)) (Num (((of_nat m + 1 / 2) / 64 - 1 / 2) * 255)) =
           Num (min 255 (max 0 (of_nat v + ((of_nat m + 1 / 2) / 64 - 1 / 2) * 255)))"
proof -
  have b: "\<bar>128 * int v + (2 * int m + 1 - 64) * 255\<bar> < 2 ^ 53"
    using assms by simp
  have "fl (of_nat v + ((of_nat m + 1 / 2) / 64 - 1 / 2) * 255) =
          of_nat v + ((of_nat m + 1 / 2) / 64 - 1 / 2) * 255"
    by (rule fl_eqI[OF _ b, of _ 7]) (simp add: field_simps)
  then show ?thesis by (simp only: adjust_def jadd.simps Math_max.simps Math_min.simps)
qed

lemma normalize_entry_16:
  assumes "m \<le> 15"
  shows "jsub (jdiv (jadd (Num (of_nat m)) (Num (1 / 2))) (Num 16)) (Num (1 / 2)) =
           Num ((of_nat m + 1 / 2) / 16 - 1 / 2)"
proof -
  have b: "\<bar>2 * int m + 1\<bar> < 2 ^ 53" "\<bar>2 * int m + 1 - 16\<bar> < 2 ^ 53"
    using assms by simp_all
  have 1: "fl (of_nat m + 1 / 2) = of_nat m + 1 / 2"
    by (rule fl_eqI[OF _ b(1), of _ 1]) (simp add: field_simps)
  have 2: "fl ((of_nat m + 1 / 2) / 16) = (of_nat m + 1 / 2) / 16"
    by (rule fl_eqI[OF _ b(1), of _ 5]) (simp add: field_simps)
  have 3: "fl ((of_nat m + 1 / 2) / 16 - 1 / 2) = (of_nat m + 1 / 2) / 16 - 1 / 2"
    by (rule fl_eqI[OF _ b(2), of _ 5]) (simp add: field_simps)
  have "jadd (Num (of_nat m)) (Num (1 / 2)) = Num (of_nat m + 1 / 2)"
    by (simp only: jadd.simps 1)
  moreover have "jdiv (Num (of_nat m + 1 / 2)) (Num 16) = Num ((of_nat m + 1 / 2) / 16)"
    by (simp add: 2 del: of_nat_add)
  moreover have "jsub (Num ((of_nat m + 1 / 2) / 16)) (Num (1 / 2)) =
      Num ((of_nat m + 1 / 2) / 16 - 1 / 2)"
    by (simp only: jsub.simps 3)
  ultimately show ?thesis by (simp only:)
qed

lemma threshold_exact_16:
  assumes "m \<le> 15"
  shows "jmul (Num ((of_nat m + 1 / 2) / 16 - 1 / 2)) (Num 255) =
           Num (((of_nat m + 1 / 2) / 16 - 1 / 2) * 255)"
proof -
  have b: "\<bar>(2 * int m + 1 - 16) * 255\<bar> < 2 ^ 53"
    using assms by simp
  have "fl (((of_nat m + 1 / 2) / 16 - 1 / 2) * 255) = ((of_nat m + 1 / 2) / 16 - 1 / 2) * 255"
    by (rule fl_eqI[OF _ b, of _ 5]) (simp add: field_simps)
  then show ?thesis by (simp only: jmul.simps)
qed

lemma adjust_exact_16:
  assumes "m \<le> 15" "v \<le> 255"
  shows "adjust (Num (of_nat v)) (Num (((of_nat m + 1 / 2) / 16 - 1 / 2) * 255)) =
           Num (min 255 (max 0 (of_nat v + ((of_nat m + 1 / 2) / 16 - 1 / 2) * 255)))"
proof -
  have b: "\<bar>32 * int v + (2 * int m + 1 - 16) * 255\<bar> < 2 ^ 53"
    using assms by simp
  have "fl (of_nat v + ((of_nat m + 1 / 2) / 16 - 1 / 2) * 255) =
          of_nat v + ((of_nat m + 1 / 2) / 16 - 1 / 2) * 255"
    by (rule fl_eqI[OF _ b, of _ 5]) (simp add: field_simps)
  then show ?thesis by (simp only: adjust_def jadd.simps Math_max.simps Math_min.simps)
qed

section \<open>Typed arrays\<close>

lemma length_put [simp]: "length (put a i v) = length a"
  by (simp add: put_def)

lemma nth_put: "put a i v ! j = (if i = j \<and> i < length a then toUint8Clamp v else a ! j)"
  by (cases "i < length a") (auto simp: put_def nth_list_update list_update_beyond)

lemma get_put: "get (put a i v) j = (if i = j \<and> i < length a then Num (of_nat (toUint8Clamp v)) else get a j)"
  by (simp add: get_def put_def nth_list_update)

lemma length_add_error [simp]: "length (add_error a j eR eG eB k) = length a"
  by (simp add: add_error_def Let_def)

lemma nth_add_error_other:
  "i \<noteq> j \<Longrightarrow> i \<noteq> j + 1 \<Longrightarrow> i \<noteq> j + 2 \<Longrightarrow> add_error a j eR eG eB k ! i = a ! i"
  by (simp add: add_error_def Let_def nth_put)

lemma length_Uint8ClampedArray_from [simp]: "length (Uint8ClampedArray_from a) = length a"
  by (simp add: Uint8ClampedArray_from_def)

lemma Uint8ClampedArray_from_le: "v \<in> set (Uint8ClampedArray_from a) \<Longrightarrow> v \<le> 255"
  by (auto simp: Uint8ClampedArray_from_def toUint8Clamp_of_nat)

lemma Uint8ClampedArray_from_idem:
  "Uint8ClampedArray_from (Uint8ClampedArray_from a) = Uint8ClampedArray_from a"
  by (simp add: Uint8ClampedArray_from_def toUint8Clamp_of_nat)

lemma Uint8ClampedArray_from_bytes:
  "list_all (\<lambda>v. v \<le> 255) a \<Longrightarrow> Uint8ClampedArray_from a = a"
  by (induction a) (simp_all add: Uint8ClampedArray_from_def toUint8Clamp_of_nat)

section \<open>Loops and passes\<close>

lemma visit_append:
  "visit step (ps @ qs) s = (case visit step ps s of Inl e \<Rightarrow> Inl e | Inr s' \<Rightarrow> visit step qs s')"
  by (induction ps arbitrary: s) (auto split: sum.splits)

lemma visit_cong:
  "(\<And>p s. p \<in> set ps \<Longrightarrow> step p s = step' p s) \<Longrightarrow> visit step ps s = visit step' ps s"
  by (induction ps arbitrary: s) (auto split: sum.splits)

lemma fs_cols_visit:
  "fs_cols f w h y x s = visit (\<lambda>(x, y). fs_pixel f w h y x) (map (\<lambda>x. (x, y)) [x..<w]) s"
proof (induction f w h y x s rule: fs_cols.induct)
  case (1 f w h y x s)
  show ?case
  proof (cases "x < w")
    case True
    then have "[x..<w] = x # [x + 1..<w]" by (simp add: upt_conv_Cons)
    with True 1 show ?thesis
      by (subst fs_cols.simps) (auto split: sum.splits)
  next
    case False
    then show ?thesis by (subst fs_cols.simps) simp
  qed
qed

lemma fs_rows_visit:
  "fs_rows f w h y s =
     visit (\<lambda>(x, y). fs_pixel f w h y x) (concat (map (\<lambda>y. map (\<lambda>x. (x, y)) [0..<w]) [y..<h])) s"
proof (induction f w h y s rule: fs_rows.induct)
  case (1 f w h y s)
  show ?case
  proof (cases "y < h")
    case True
    then have "[y..<h] = y # [y + 1..<h]" by (simp add: upt_conv_Cons)
    with True 1 show ?thesis
      by (subst fs_rows.simps) (auto simp: visit_append fs_cols_visit split: sum.splits)
  next
    case False
    then show ?thesis by (subst fs_rows.simps) simp
  qed
qed

lemma fs_rows_row_major:
  "fs_rows f w h 0 s = visit (\<lambda>(x, y). fs_pixel f w h y x) (row_major w h) s"
  by (simp add: fs_rows_visit row_major_def)

lemma in_row_major: "(x, y) \<in> set (row_major w h) \<longleftrightarrow> x < w \<and> y < h"
  by (auto simp: row_major_def image_iff)

lemma visit_preserves:
  assumes step: "\<And>p s s'. p \<in> set ps \<Longrightarrow> I s \<Longrightarrow> step p s = Inr s' \<Longrightarrow> I s'"
    and "I s" and "visit step ps s = Inr s'"
  shows "I s'"
  using assms
proof (induction ps arbitrary: s)
  case Nil
  then show ?case by simp
next
  case (Cons p ps)
  from Cons.prems(3) obtain s1 where s1: "step p s = Inr s1" "visit step ps s1 = Inr s'"
    by (auto split: sum.splits)
  have I1: "I s1" using Cons.prems(1)[of p s s1] Cons.prems(2) s1(1) by simp
  show ?case
  proof (rule Cons.IH[OF _ I1 s1(2)])
    fix q t t'
    assume "q \<in> set ps" "I t" "step q t = Inr t'"
    then show "I t'" using Cons.prems(1)[of q t t'] by simp
  qed
qed

lemma visit_establishes:
  assumes est: "\<And>s s'. I s \<Longrightarrow> step p s = Inr s' \<Longrightarrow> P s'"
    and keep: "\<And>q s s'. q \<in> S \<Longrightarrow> I s \<Longrightarrow> P s \<Longrightarrow> step q s = Inr s' \<Longrightarrow> P s'"
    and inv: "\<And>q s s'. q \<in> S \<Longrightarrow> I s \<Longrightarrow> step q s = Inr s' \<Longrightarrow> I s'"
  shows "set ps \<subseteq> S \<Longrightarrow> I s \<Longrightarrow> visit step ps s = Inr s' \<Longrightarrow> p \<in> set ps \<Longrightarrow> P s'"
proof (induction ps arbitrary: s)
  case Nil
  then show ?case by simp
next
  case (Cons q qs)
  from Cons.prems(3) obtain s1 where s1: "step q s = Inr s1" "visit step qs s1 = Inr s'"
    by (auto split: sum.splits)
  have qS: "q \<in> S" and sub: "set qs \<subseteq> S" using Cons.prems(1) by simp_all
  have I1: "I s1" using inv[OF qS Cons.prems(2) s1(1)] .
  show ?case
  proof (cases "p \<in> set qs")
    case True
    show ?thesis by (rule Cons.IH[OF sub I1 s1(2) True])
  next
    case False
    with Cons.prems(4) have "p = q" by simp
    with est[OF Cons.prems(2)] s1(1) have P1: "P s1" by simp
    have "I s' \<and> P s'"
    proof (rule visit_preserves[of qs "\<lambda>s. I s \<and> P s" step s1 s'])
      show "I s1 \<and> P s1" using I1 P1 by simp
      show "visit step qs s1 = Inr s'" by (rule s1(2))
    next
      fix r t t'
      assume "r \<in> set qs" "I t \<and> P t" "step r t = Inr t'"
      with sub show "I t' \<and> P t'" using inv[of r t t'] keep[of r t t'] by auto
    qed
    then show ?thesis by simp
  qed
qed

lemma visit_succeeds:
  assumes "\<And>p s. p \<in> set ps \<Longrightarrow> \<exists>s'. step p s = Inr s'"
  shows "\<exists>s'. visit step ps s = Inr s'"
  using assms
proof (induction ps arbitrary: s)
  case Nil
  then show ?case by simp
next
  case (Cons p ps)
  from Cons.prems[of p s] obtain s1 where s1: "step p s = Inr s1" by auto
  have "\<exists>s'. visit step ps s1 = Inr s'"
  proof (rule Cons.IH)
    fix q t
    assume "q \<in> set ps"
    then show "\<exists>t'. step q t = Inr t'" using Cons.prems[of q t] by simp
  qed
  with s1 show ?case by simp
qed

lemma visit_aborts:
  assumes "visit step pre s = Inr s1" and "step p s1 = Inl e"
  shows "visit step (pre @ p # post) s = Inl e"
  using assms by (simp add: visit_append)

lemma visit_Inl_cases:
  assumes "visit step ps s = Inl e"
  shows "\<exists>pre p post s1. ps = pre @ p # post \<and> visit step pre s = Inr s1 \<and> step p s1 = Inl e"
  using assms
proof (induction ps arbitrary: s)
  case Nil
  then show ?case by simp
next
  case (Cons q ps)
  show ?case
  proof (cases "step q s")
    case (Inl e')
    with Cons.prems have "e' = e" by simp
    with Inl have "q # ps = [] @ q # ps \<and> visit step [] s = Inr s \<and> step q s = Inl e" by simp
    then show ?thesis by blast
  next
    case (Inr s1)
    with Cons.prems have "visit step ps s1 = Inl e" by simp
    from Cons.IH[OF this] obtain pre p post s2 where
      "ps = pre @ p # post" "visit step pre s1 = Inr s2" "step p s2 = Inl e" by blast
    with Inr have "q # ps = (q # pre) @ p # post \<and> visit step (q # pre) s = Inr s2 \<and> step p s2 = Inl e"
      by simp
    then show ?thesis by blast
  qed
qed

lemma pixel_index_less:
  fixes x y w h :: nat
  assumes "x < w" "y < h"
  shows "(y * w + x) * 4 + 3 < w * h * 4"
proof -
  have "y * w + x < y * w + w" using assms(1) by simp
  also have "\<dots> = (y + 1) * w" by simp
  also have "\<dots> \<le> h * w" using assms(2) by (intro mult_le_mono1) simp
  finally show ?thesis by (simp add: mult.commute)
qed

lemma pixel_index_inj:
  fixes x y w :: nat
  assumes "x < w" "x' < w" "y * w + x = y' * w + x'"
  shows "x = x' \<and> y = y'"
proof -
  have a: "(y * w + x) mod w = x" "(y * w + x) div w = y" using assms(1) by simp_all
  have b: "(y' * w + x') mod w = x'" "(y' * w + x') div w = y'" using assms(2) by simp_all
  have "x = (y' * w + x') mod w" using a(1) by (simp only: assms(3))
  moreover have "y = (y' * w + x') div w" using a(2) by (simp only: assms(3))
  ultimately show ?thesis using b by simp
qed

section \<open>Error diffusion\<close>

lemma spread_add_error:
  "spread w [eR, eG, eB] work ((a, b), k) = add_error work ((nat b * w + nat a) * 4) eR eG eB k"
  by (simp add: spread_def add_error_def channel_def Let_def)

lemma neighbours_eq:
  assumes "x < w" "y < h"
  shows "neighbours w h x y =
     (if x + 1 < w then [((int (x + 1), int y), 7)] else []) @
     (if 0 \<le> int x - 1 \<and> y + 1 < h then [((int (x - 1), int (y + 1)), 3)] else []) @
     (if y + 1 < h then [((int x, int (y + 1)), 5)] else []) @
     (if x + 1 < w \<and> y + 1 < h then [((int (x + 1), int (y + 1)), 1)] else [])"
  using assms by (auto simp: neighbours_def of_nat_diff)

lemma write_pixel_eq:
  "write_pixel out w x y [a, b, c, d] =
     put (put (put (put out ((y * w + x) * 4) a) ((y * w + x) * 4 + 1) b) ((y * w + x) * 4 + 2) c)
       ((y * w + x) * 4 + 3) d"
  by (simp add: write_pixel_def)

lemma fs_pixel_diffuse_pixel:
  assumes "x < w" "y < h"
  shows "fs_pixel f w h y x s = diffuse_pixel f w h (x, y) s"
proof -
  obtain dat out where s: "s = (dat, out)" by (cases s)
  show ?thesis
  proof (cases x)
    case 0
    then show ?thesis
      using assms unfolding s fs_pixel_def diffuse_pixel_def
      by (simp add: Let_def channel_def write_pixel_eq spread_add_error neighbours_eq
          del: of_nat_add of_nat_Suc of_nat_diff split: option.splits)
  next
    case (Suc n)
    then show ?thesis
      using assms unfolding s fs_pixel_def diffuse_pixel_def
      by (simp add: Let_def channel_def write_pixel_eq spread_add_error neighbours_eq add_ac
          del: of_nat_add of_nat_Suc of_nat_diff split: option.splits)
  qed
qed

lemmas eval_simps = fs_pixel_def add_error_def put_def get_def Let_def toUint8Clamp.simps rhe_def
  monochromeFn_def findClosestMonochromeColor_def

section \<open>floydSteinberg is the error diffusion of the specification\<close>

lemma visit_fs_pixel_diffuse_pixel:
  "visit (\<lambda>(x, y). fs_pixel resolve w h y x) (row_major w h) s =
   visit (diffuse_pixel resolve w h) (row_major w h) s"
proof (rule visit_cong)
  fix p :: "nat \<times> nat" and s :: "nat list \<times> nat list"
  assume "p \<in> set (row_major w h)"
  moreover obtain x y where p: "p = (x, y)" by (cases p)
  ultimately have "x < w" "y < h" by (simp_all add: in_row_major)
  with p show "(case p of (x, y) \<Rightarrow> fs_pixel resolve w h y x) s = diffuse_pixel resolve w h p s"
    by (simp add: fs_pixel_diffuse_pixel)
qed

lemma floydSteinberg_eq:
  "floydSteinberg (Some img) (Some resolve) = error_diffusion img resolve"
  unfolding floydSteinberg_def error_diffusion_def Let_def
  by (simp only: fs_rows_row_major visit_fs_pixel_diffuse_pixel Uint8ClampedArray_from_idem
      prod.case option.case)

text \<open>
  Claim C1. \<open>floydSteinberg\<close> is the error diffusion of the specification,
  \<open>error_diffusion\<close>: the pixels are visited in the order of \<open>row_major\<close> (\<open>y\<close> outer,
  \<open>x\<close> inner, both ascending); at \<open>(x, y)\<close> the resolver is applied to the three colour
  channels of the working buffer as they are then, the chosen colour is stored in the
  output at \<open>(x, y)\<close>, and the error, working channel minus chosen channel, goes to the
  working buffer at the members of \<open>neighbours\<close> only: \<open>(x+1, y)\<close> with 7/16,
  \<open>(x-1, y+1)\<close> with 3/16, \<open>(x, y+1)\<close> with 5/16 and \<open>(x+1, y+1)\<close> with 1/16, each
  only when it lies in the image. Each sum is stored through \<open>put\<close>, which rounds it to
  the nearest integer (\<open>rhe_nearest\<close>) and clamps it to \<open>[0, 255]\<close>
  (\<open>toUint8Clamp_le\<close>).
\<close>

theorem floydSteinberg_error_diffusion:
  "floydSteinberg (Some img) (Some resolve) = error_diffusion img resolve"
  by (rule floydSteinberg_eq)

section \<open>Error diffusion: what a pass preserves\<close>

lemma add_error_alpha:
  assumes "i mod 4 = 3"
  shows "add_error dat (q * 4) eR eG eB k ! i = dat ! i"
proof -
  have "i \<noteq> q * 4" "i \<noteq> q * 4 + 1" "i \<noteq> q * 4 + 2" using assms by presburger+
  then show ?thesis by (rule nth_add_error_other)
qed

lemma spread_alpha:
  assumes "i mod 4 = 3"
  shows "spread w [eR, eG, eB] work t ! i = work ! i"
proof -
  obtain a b k where t: "t = ((a, b), k)" by (cases t) auto
  show ?thesis unfolding t spread_add_error by (rule add_error_alpha[OF assms])
qed

lemma length_spread [simp]: "length (spread w [eR, eG, eB] work t) = length work"
proof -
  obtain a b k where t: "t = ((a, b), k)" by (cases t) auto
  show ?thesis unfolding t spread_add_error by simp
qed

lemma foldl_spread_alpha:
  assumes "i mod 4 = 3"
  shows "foldl (spread w [eR, eG, eB]) work ts ! i = work ! i"
  by (induction ts arbitrary: work) (simp_all add: spread_alpha[OF assms])

lemma length_foldl_spread [simp]: "length (foldl (spread w [eR, eG, eB]) work ts) = length work"
  by (induction ts arbitrary: work) simp_all

lemma put_le:
  "list_all (\<lambda>v. v \<le> 255) a \<Longrightarrow> list_all (\<lambda>v. v \<le> (255::nat)) (put a i v)"
  unfolding put_def list_all_iff using toUint8Clamp_le[of v]
  by (auto dest!: set_update_subset_insert[THEN subsetD])

lemma diffuse_pixel_Inr:
  "diffuse_pixel f w h (x, y) (work, out) = Inr (work', out') \<longleftrightarrow>
     (\<exists>c. f (channel work w x y 0) (channel work w x y 1) (channel work w x y 2) = Some c \<and>
        3 \<le> length c \<and>
        work' = foldl (spread w [jsub (channel work w x y 0) (c ! 0),
                  jsub (channel work w x y 1) (c ! 1), jsub (channel work w x y 2) (c ! 2)])
                  work (neighbours w h x y) \<and>
        out' = write_pixel out w x y [c ! 0, c ! 1, c ! 2, channel work w x y 3])"
  by (auto simp: diffuse_pixel_def Let_def split: option.splits)

lemma diffuse_pixel_Inl:
  "diffuse_pixel f w h (x, y) (work, out) = Inl e \<longleftrightarrow>
     e = InvalidColor \<and>
     unusable (f (channel work w x y 0) (channel work w x y 1) (channel work w x y 2))"
  by (auto simp: diffuse_pixel_def unusable_def Let_def split: option.splits)

lemma diffuse_pixel_length:
  assumes "diffuse_pixel f w h (x, y) (work, out) = Inr (work', out')"
  shows "length work' = length work" "length out' = length out"
  using assms by (auto simp: diffuse_pixel_Inr write_pixel_eq)

lemma diffuse_pixel_range:
  assumes "diffuse_pixel f w h (x, y) (work, out) = Inr (work', out')"
    and "list_all (\<lambda>v. v \<le> 255) out"
  shows "list_all (\<lambda>v. v \<le> 255) out'"
  using assms by (auto simp: diffuse_pixel_Inr write_pixel_eq put_le)

lemma diffuse_pixel_alpha:
  assumes "diffuse_pixel f w h (x, y) (work, out) = Inr (work', out')" "i mod 4 = 3"
  shows "work' ! i = work ! i"
    and "out' ! i = (if i = (y * w + x) * 4 + 3 \<and> i < length out
                     then toUint8Clamp (get work i) else out ! i)"
proof -
  from assms(1) obtain c where
    w': "work' = foldl (spread w [jsub (channel work w x y 0) (c ! 0),
                  jsub (channel work w x y 1) (c ! 1), jsub (channel work w x y 2) (c ! 2)])
                  work (neighbours w h x y)"
    and o: "out' = write_pixel out w x y [c ! 0, c ! 1, c ! 2, channel work w x y 3]"
    by (auto simp: diffuse_pixel_Inr)
  show "work' ! i = work ! i" unfolding w' by (rule foldl_spread_alpha[OF assms(2)])
  have ne: "(y * w + x) * 4 \<noteq> i" "(y * w + x) * 4 + 1 \<noteq> i" "(y * w + x) * 4 + 2 \<noteq> i"
    using assms(2) by presburger+
  show "out' ! i = (if i = (y * w + x) * 4 + 3 \<and> i < length out
                     then toUint8Clamp (get work i) else out ! i)"
    unfolding o write_pixel_eq channel_def
    by (simp only: nth_put ne length_put if_False simp_thms) auto
qed

lemma diffusion_pass_length:
  assumes "visit (diffuse_pixel f w h) ps (work0, out0) = Inr (work, out)"
  shows "length work = length work0 \<and> length out = length out0"
proof -
  have "(\<lambda>s. length (fst s) = length work0 \<and> length (snd s) = length out0) (work, out)"
  proof (rule visit_preserves[OF _ _ assms])
    show "length (fst (work0, out0)) = length work0 \<and> length (snd (work0, out0)) = length out0"
      by simp
  next
    fix p :: "nat \<times> nat" and s s' :: "nat list \<times> nat list"
    assume "length (fst s) = length work0 \<and> length (snd s) = length out0"
      and "diffuse_pixel f w h p s = Inr s'"
    then show "length (fst s') = length work0 \<and> length (snd s') = length out0"
      by (cases p, cases s, cases s') (auto dest: diffuse_pixel_length)
  qed
  then show ?thesis by simp
qed

lemma diffusion_pass_range:
  assumes "visit (diffuse_pixel f w h) ps (work0, out0) = Inr (work, out)"
    and "list_all (\<lambda>v. v \<le> 255) out0"
  shows "list_all (\<lambda>v. v \<le> 255) out"
proof -
  have "(\<lambda>s. list_all (\<lambda>v. v \<le> 255) (snd s)) (work, out)"
  proof (rule visit_preserves[OF _ _ assms(1)])
    show "list_all (\<lambda>v. v \<le> 255) (snd (work0, out0))" using assms(2) by simp
  next
    fix p :: "nat \<times> nat" and s s' :: "nat list \<times> nat list"
    assume "list_all (\<lambda>v. v \<le> 255) (snd s)" and "diffuse_pixel f w h p s = Inr s'"
    then show "list_all (\<lambda>v. v \<le> 255) (snd s')"
      by (cases p, cases s, cases s') (auto dest: diffuse_pixel_range)
  qed
  then show ?thesis by simp
qed

lemma diffusion_pass_alpha:
  assumes run: "visit (diffuse_pixel f w h) ps (d0, d0) = Inr (work, out)"
    and bytes: "list_all (\<lambda>v. v \<le> 255) d0"
    and i: "i < length d0" "i mod 4 = 3"
  shows "out ! i = d0 ! i"
proof -
  let ?J = "\<lambda>s. length (fst s) = length d0 \<and> length (snd s) = length d0 \<and>
              fst s ! i = d0 ! i \<and> snd s ! i = d0 ! i"
  have b: "d0 ! i \<le> 255" using bytes i(1) by (simp add: list_all_length)
  have "?J (work, out)"
  proof (rule visit_preserves[OF _ _ run])
    show "?J (d0, d0)" by simp
  next
    fix p :: "nat \<times> nat" and s s' :: "nat list \<times> nat list"
    assume J: "?J s" and step: "diffuse_pixel f w h p s = Inr s'"
    obtain x y where p: "p = (x, y)" by (cases p)
    obtain wk ou where s: "s = (wk, ou)" by (cases s)
    obtain wk' ou' where s': "s' = (wk', ou')" by (cases s')
    note st = step[unfolded p s s']
    have g: "toUint8Clamp (get wk i) = d0 ! i"
      using J i(1) b by (simp add: s get_def toUint8Clamp_byte)
    have "ou' ! i = d0 ! i"
      using diffuse_pixel_alpha(2)[OF st i(2)] g J unfolding s by (auto split: if_splits)
    with diffuse_pixel_length[OF st] diffuse_pixel_alpha(1)[OF st i(2)] J
    show "?J s'" by (simp add: s s')
  qed
  then show ?thesis by simp
qed

lemma diffusion_pass_succeeds:
  assumes "\<And>r g b. \<not> unusable (f r g b)"
  shows "\<exists>s'. visit (diffuse_pixel f w h) ps s = Inr s'"
proof (rule visit_succeeds)
  fix p :: "nat \<times> nat" and s :: "nat list \<times> nat list"
  obtain x y where p: "p = (x, y)" by (cases p)
  obtain wk ou where s: "s = (wk, ou)" by (cases s)
  show "\<exists>s'. diffuse_pixel f w h p s = Inr s'"
  proof (cases "diffuse_pixel f w h p s")
    case (Inl e)
    then have False using assms unfolding p s by (simp add: diffuse_pixel_Inl)
    then show ?thesis ..
  next
    case (Inr s')
    then show ?thesis by blast
  qed
qed

lemma error_diffusion_Inr:
  "error_diffusion img f = Inr res \<longleftrightarrow>
     (\<exists>work out. visit (diffuse_pixel f (width img) (height img))
          (row_major (width img) (height img))
          (Uint8ClampedArray_from (data img), Uint8ClampedArray_from (data img)) = Inr (work, out)
        \<and> res = \<lparr>width = width img, height = height img, data = out\<rparr>)"
  by (auto simp: error_diffusion_def Let_def split: sum.splits)

lemma error_diffusion_shape:
  assumes "error_diffusion img f = Inr res"
  shows "width res = width img \<and> height res = height img \<and> length (data res) = length (data img)
         \<and> list_all (\<lambda>v. v \<le> 255) (data res)"
proof -
  from assms obtain work out where
    run: "visit (diffuse_pixel f (width img) (height img)) (row_major (width img) (height img))
          (Uint8ClampedArray_from (data img), Uint8ClampedArray_from (data img)) = Inr (work, out)"
    and res: "res = \<lparr>width = width img, height = height img, data = out\<rparr>"
    by (auto simp: error_diffusion_Inr)
  have "list_all (\<lambda>v. v \<le> 255) (Uint8ClampedArray_from (data img))"
    by (simp add: list_all_iff Uint8ClampedArray_from_le)
  from diffusion_pass_length[OF run] diffusion_pass_range[OF run this] res
  show ?thesis by simp
qed

lemma error_diffusion_alpha:
  assumes "error_diffusion img f = Inr res" "valid_ImageData img"
    and "x < width img" "y < height img"
  shows "pixel (data res) (width img) x y ! 3 = pixel (data img) (width img) x y ! 3"
proof -
  from assms(1) obtain work out where
    run: "visit (diffuse_pixel f (width img) (height img)) (row_major (width img) (height img))
          (Uint8ClampedArray_from (data img), Uint8ClampedArray_from (data img)) = Inr (work, out)"
    and res: "res = \<lparr>width = width img, height = height img, data = out\<rparr>"
    by (auto simp: error_diffusion_Inr)
  have bytes: "list_all (\<lambda>v. v \<le> 255) (data img)"
    and len: "length (data img) = width img * height img * 4"
    using assms(2) by (simp_all add: valid_ImageData_def)
  have d0: "Uint8ClampedArray_from (data img) = data img"
    by (rule Uint8ClampedArray_from_bytes[OF bytes])
  have i: "(y * width img + x) * 4 + 3 < length (data img)"
    using pixel_index_less[OF assms(3,4)] len by simp
  have m: "((y * width img + x) * 4 + 3) mod 4 = 3" by presburger
  from diffusion_pass_alpha[OF run[unfolded d0] bytes i m] res
  show ?thesis by (simp add: pixel_def)
qed

lemma error_diffusion_succeeds:
  assumes "\<And>r g b. \<not> unusable (f r g b)"
  shows "\<exists>res. error_diffusion img f = Inr res"
proof -
  from diffusion_pass_succeeds[of f, OF assms] obtain s' where
    "visit (diffuse_pixel f (width img) (height img)) (row_major (width img) (height img))
          (Uint8ClampedArray_from (data img), Uint8ClampedArray_from (data img)) = Inr s'"
    by blast
  then show ?thesis by (cases s') (simp add: error_diffusion_def Let_def)
qed

section \<open>The ordered transforms, pixel by pixel\<close>

lemma matrix_cols_visit:
  "matrix_cols nm n f w dat y x out =
     visit (\<lambda>(x, y). matrix_pixel nm n f w dat y x) (map (\<lambda>x. (x, y)) [x..<w]) out"
proof (induction nm n f w dat y x out rule: matrix_cols.induct)
  case (1 nm n f w dat y x out)
  show ?case
  proof (cases "x < w")
    case True
    then have "[x..<w] = x # [x + 1..<w]" by (simp add: upt_conv_Cons)
    with True 1 show ?thesis
      by (subst matrix_cols.simps) (auto split: sum.splits)
  next
    case False
    then show ?thesis by (subst matrix_cols.simps) simp
  qed
qed

lemma matrix_rows_visit:
  "matrix_rows nm n f w h dat y out =
     visit (\<lambda>(x, y). matrix_pixel nm n f w dat y x)
       (concat (map (\<lambda>y. map (\<lambda>x. (x, y)) [0..<w]) [y..<h])) out"
proof (induction nm n f w h dat y out rule: matrix_rows.induct)
  case (1 nm n f w h dat y out)
  show ?case
  proof (cases "y < h")
    case True
    then have "[y..<h] = y # [y + 1..<h]" by (simp add: upt_conv_Cons)
    with True 1 show ?thesis
      by (subst matrix_rows.simps) (auto simp: visit_append matrix_cols_visit split: sum.splits)
  next
    case False
    then show ?thesis by (subst matrix_rows.simps) simp
  qed
qed

lemma matrix_dither_in_order:
  "matrix_dither nm n (Some img) (Some f) =
     dither_in_order nm n (row_major (width img) (height img)) img f"
  by (simp add: matrix_dither_def dither_in_order_def Let_def matrix_rows_visit row_major_def)

lemma matrix_pixel_Inr:
  "matrix_pixel nm n f w dat y x out = Inr out' \<longleftrightarrow>
     (\<exists>c. resolved_at nm n f w dat x y = Some c \<and> 3 \<le> length c \<and>
        out' = put (put (put (put out ((y * w + x) * 4) (c ! 0)) ((y * w + x) * 4 + 1) (c ! 1))
                 ((y * w + x) * 4 + 2) (c ! 2)) ((y * w + x) * 4 + 3) (get dat ((y * w + x) * 4 + 3)))"
  by (auto simp: matrix_pixel_def resolved_at_def threshold_at_def Let_def split: option.splits)

lemma matrix_pixel_Inl:
  "matrix_pixel nm n f w dat y x out = Inl e \<longleftrightarrow>
     e = InvalidColor \<and> unusable (resolved_at nm n f w dat x y)"
  by (auto simp: matrix_pixel_def resolved_at_def threshold_at_def unusable_def Let_def
      split: option.splits)

lemma put4_nth:
  assumes "q * 4 + 3 < length out"
  shows "put (put (put (put out (q * 4) a) (q * 4 + 1) b) (q * 4 + 2) c) (q * 4 + 3) d ! i =
     (if i div 4 = q
      then [toUint8Clamp a, toUint8Clamp b, toUint8Clamp c, toUint8Clamp d] ! (i mod 4)
      else out ! i)"
proof (cases "i div 4 = q")
  case True
  then obtain k where k: "i = q * 4 + k" "k < 4"
    by (metis mod_less_divisor mult.commute mult_div_mod_eq zero_less_numeral)
  then have "k = 0 \<or> k = 1 \<or> k = 2 \<or> k = 3" by auto
  then show ?thesis using assms True k(1) by (auto simp: nth_put)
next
  case False
  then have "i \<noteq> q * 4" "i \<noteq> q * 4 + 1" "i \<noteq> q * 4 + 2" "i \<noteq> q * 4 + 3" by auto
  then show ?thesis using False by (simp add: nth_put)
qed

lemma pixel_nth:
  "pixel buf w x y ! c = buf ! ((y * w + x) * 4 + c)" if "c < 4"
proof -
  from that have "c = 0 \<or> c = 1 \<or> c = 2 \<or> c = 3" by auto
  then show ?thesis by (auto simp: pixel_def)
qed

lemma put4_own:
  assumes "q * 4 + 3 < length out"
  shows "map (\<lambda>k. put (put (put (put out (q * 4) a) (q * 4 + 1) b) (q * 4 + 2) c) (q * 4 + 3) d
                    ! (q * 4 + k)) [0, 1, 2, 3] =
         [toUint8Clamp a, toUint8Clamp b, toUint8Clamp c, toUint8Clamp d]"
  using assms by (simp add: nth_put)

lemma put4_other_nth:
  assumes "q' \<noteq> q" "k < 4"
  shows "put (put (put (put out (q * 4) a) (q * 4 + 1) b) (q * 4 + 2) c) (q * 4 + 3) d
           ! (q' * 4 + k) = out ! (q' * 4 + k)"
proof -
  have ne: "q * 4 \<noteq> q' * 4 + k" "q * 4 + 1 \<noteq> q' * 4 + k" "q * 4 + 2 \<noteq> q' * 4 + k"
    "q * 4 + 3 \<noteq> q' * 4 + k"
    using assms by arith+
  show ?thesis by (simp only: nth_put ne if_False simp_thms)
qed

lemma put4_other:
  assumes "q' \<noteq> q"
  shows "map (\<lambda>k. put (put (put (put out (q * 4) a) (q * 4 + 1) b) (q * 4 + 2) c) (q * 4 + 3) d
                    ! (q' * 4 + k)) [0, 1, 2, 3] =
         map (\<lambda>k. out ! (q' * 4 + k)) [0, 1, 2, 3]"
proof (rule map_cong[OF refl])
  fix k :: nat
  assume "k \<in> set [0, 1, 2, 3]"
  then have "k < 4" by auto
  then show "put (put (put (put out (q * 4) a) (q * 4 + 1) b) (q * 4 + 2) c) (q * 4 + 3) d
               ! (q' * 4 + k) = out ! (q' * 4 + k)"
    by (rule put4_other_nth[OF assms])
qed

lemma matrix_pixel_length:
  "matrix_pixel nm n f w dat y x out = Inr out' \<Longrightarrow> length out' = length out"
  by (auto simp: matrix_pixel_Inr)

lemma matrix_pixel_own:
  assumes "matrix_pixel nm n f w dat y x out = Inr out'" "(y * w + x) * 4 + 3 < length out"
  shows "\<exists>c. resolved_at nm n f w dat x y = Some c \<and> 3 \<le> length c \<and>
           pixel out' w x y = stored c (toUint8Clamp (get dat ((y * w + x) * 4 + 3)))"
proof -
  from assms(1) obtain c where c: "resolved_at nm n f w dat x y = Some c" "3 \<le> length c"
    "out' = put (put (put (put out ((y * w + x) * 4) (c ! 0)) ((y * w + x) * 4 + 1) (c ! 1))
                 ((y * w + x) * 4 + 2) (c ! 2)) ((y * w + x) * 4 + 3) (get dat ((y * w + x) * 4 + 3))"
    by (auto simp: matrix_pixel_Inr)
  have "pixel out' w x y = stored c (toUint8Clamp (get dat ((y * w + x) * 4 + 3)))"
    unfolding c(3) pixel_def stored_def by (rule put4_own[OF assms(2)])
  with c show ?thesis by blast
qed

lemma matrix_pixel_other:
  assumes "matrix_pixel nm n f w dat y x out = Inr out'"
    and "y' * w + x' \<noteq> y * w + x"
  shows "pixel out' w x' y' = pixel out w x' y'"
proof -
  from assms(1) obtain c where c:
    "out' = put (put (put (put out ((y * w + x) * 4) (c ! 0)) ((y * w + x) * 4 + 1) (c ! 1))
                 ((y * w + x) * 4 + 2) (c ! 2)) ((y * w + x) * 4 + 3) (get dat ((y * w + x) * 4 + 3))"
    by (auto simp: matrix_pixel_Inr)
  show ?thesis
    unfolding c pixel_def by (rule put4_other[OF assms(2)])
qed

lemma matrix_pass_length:
  assumes "visit (\<lambda>(x, y). matrix_pixel nm n f w dat y x) ps out0 = Inr out"
  shows "length out = length out0"
proof (rule visit_preserves[of ps "\<lambda>out. length out = length out0", OF _ _ assms])
  show "length out0 = length out0" by simp
next
  fix p :: "nat \<times> nat" and s s' :: "nat list"
  assume "length s = length out0" "(case p of (x, y) \<Rightarrow> matrix_pixel nm n f w dat y x) s = Inr s'"
  then show "length s' = length out0"
    by (cases p) (auto dest: matrix_pixel_length)
qed

lemma matrix_pass_visited:
  assumes run: "visit (\<lambda>(x, y). matrix_pixel nm n f w dat y x) ps out0 = Inr out"
    and len: "length out0 = w * h * 4"
    and inb: "set ps \<subseteq> set (row_major w h)"
    and p: "(x, y) \<in> set ps"
  shows "\<exists>c. resolved_at nm n f w dat x y = Some c \<and> 3 \<le> length c \<and>
           pixel out w x y = stored c (toUint8Clamp (get dat ((y * w + x) * 4 + 3)))"
proof -
  let ?step = "\<lambda>(x, y). matrix_pixel nm n f w dat y x"
  let ?I = "\<lambda>out :: nat list. length out = w * h * 4"
  let ?P = "\<lambda>out. \<exists>c. resolved_at nm n f w dat x y = Some c \<and> 3 \<le> length c \<and>
           pixel out w x y = stored c (toUint8Clamp (get dat ((y * w + x) * 4 + 3)))"
  from p inb have xy: "x < w" "y < h" by (auto simp: in_row_major)
  have est: "?P s'" if "?I s" "?step (x, y) s = Inr s'" for s s'
  proof -
    have "(y * w + x) * 4 + 3 < length s" using pixel_index_less[OF xy] that(1) by simp
    with that(2) show ?thesis by (auto dest: matrix_pixel_own)
  qed
  have keep: "?P s'" if "q \<in> set (row_major w h)" "?I s" "?P s" "?step q s = Inr s'" for q s s'
  proof -
    obtain x' y' where q: "q = (x', y')" by (cases q)
    with that(1) have x'y': "x' < w" "y' < h" by (auto simp: in_row_major)
    show ?thesis
    proof (cases "y * w + x = y' * w + x'")
      case True
      with pixel_index_inj[OF xy(1) x'y'(1) True] have "q = (x, y)" using q by simp
      with est[OF that(2)] that(4) show ?thesis by simp
    next
      case False
      with that(4) q have "pixel s' w x y = pixel s w x y"
        by (auto dest: matrix_pixel_other)
      with that(3) show ?thesis by simp
    qed
  qed
  have inv: "?I s'" if "q \<in> set (row_major w h)" "?I s" "?step q s = Inr s'" for q s s'
    using that(2,3) by (cases q) (auto dest: matrix_pixel_length)
  show ?thesis
    by (rule visit_establishes[of ?I ?step "(x, y)" ?P "set (row_major w h)" ps out0 out,
          OF est keep inv inb len run p])
qed

lemma matrix_pass_unvisited:
  assumes run: "visit (\<lambda>(x, y). matrix_pixel nm n f w dat y x) ps out0 = Inr out"
    and inb: "set ps \<subseteq> set (row_major w h)"
    and p: "(x, y) \<in> set (row_major w h)" "(x, y) \<notin> set ps"
  shows "pixel out w x y = pixel out0 w x y"
proof (rule visit_preserves[of ps "\<lambda>out. pixel out w x y = pixel out0 w x y", OF _ _ run])
  show "pixel out0 w x y = pixel out0 w x y" by simp
next
  fix q :: "nat \<times> nat" and s s' :: "nat list"
  assume q: "q \<in> set ps" and s: "pixel s w x y = pixel out0 w x y"
    and step: "(case q of (x, y) \<Rightarrow> matrix_pixel nm n f w dat y x) s = Inr s'"
  obtain x' y' where q': "q = (x', y')" by (cases q)
  from q inb q' have x'y': "x' < w" "y' < h" by (auto simp: in_row_major)
  from p(1) have xy: "x < w" "y < h" by (auto simp: in_row_major)
  have "y * w + x \<noteq> y' * w + x'"
    using pixel_index_inj[OF xy(1) x'y'(1)] q q' p(2) by auto
  with step q' have "pixel s' w x y = pixel s w x y" by (auto dest: matrix_pixel_other)
  with s show "pixel s' w x y = pixel out0 w x y" by simp
qed

lemma visit_Inr_step:
  assumes "visit step ps s = Inr s'" "p \<in> set ps"
  shows "\<exists>s1 s2. step p s1 = Inr s2"
  using assms
proof (induction ps arbitrary: s)
  case Nil
  then show ?case by simp
next
  case (Cons q qs)
  from Cons.prems(1) obtain s1 where s1: "step q s = Inr s1" "visit step qs s1 = Inr s'"
    by (auto split: sum.splits)
  show ?case
  proof (cases "p = q")
    case True
    with s1(1) show ?thesis by blast
  next
    case False
    with Cons.prems(2) have "p \<in> set qs" by simp
    from Cons.IH[OF s1(2) this] show ?thesis .
  qed
qed

lemma matrix_pass_Inr_iff:
  "(\<exists>out. visit (\<lambda>(x, y). matrix_pixel nm n f w dat y x) ps out0 = Inr out) \<longleftrightarrow>
     (\<forall>(x, y) \<in> set ps. \<not> unusable (resolved_at nm n f w dat x y))"
proof
  assume "\<exists>out. visit (\<lambda>(x, y). matrix_pixel nm n f w dat y x) ps out0 = Inr out"
  then obtain out where run: "visit (\<lambda>(x, y). matrix_pixel nm n f w dat y x) ps out0 = Inr out" ..
  show "\<forall>(x, y) \<in> set ps. \<not> unusable (resolved_at nm n f w dat x y)"
  proof (clarify)
    fix x y
    assume "(x, y) \<in> set ps" "unusable (resolved_at nm n f w dat x y)"
    from visit_Inr_step[OF run this(1)] obtain s1 s2 where "matrix_pixel nm n f w dat y x s1 = Inr s2"
      by auto
    with \<open>unusable (resolved_at nm n f w dat x y)\<close> show False
      by (auto simp: matrix_pixel_Inr unusable_def)
  qed
next
  assume ok: "\<forall>(x, y) \<in> set ps. \<not> unusable (resolved_at nm n f w dat x y)"
  show "\<exists>out. visit (\<lambda>(x, y). matrix_pixel nm n f w dat y x) ps out0 = Inr out"
  proof (rule visit_succeeds)
    fix p :: "nat \<times> nat" and s :: "nat list"
    assume "p \<in> set ps"
    with ok obtain x y where p: "p = (x, y)" and "\<not> unusable (resolved_at nm n f w dat x y)"
      by (cases p) auto
    then obtain c where "resolved_at nm n f w dat x y = Some c" "3 \<le> length c"
      by (auto simp: unusable_def split: option.splits)
    then show "\<exists>s'. (case p of (x, y) \<Rightarrow> matrix_pixel nm n f w dat y x) s = Inr s'"
      using p by (simp add: matrix_pixel_Inr)
  qed
qed

lemma matrix_pass_Inl:
  assumes "visit (\<lambda>(x, y). matrix_pixel nm n f w dat y x) ps out0 = Inl e"
  shows "e = InvalidColor"
proof -
  from visit_Inl_cases[OF assms] obtain p s1 where
    "(case p of (x, y) \<Rightarrow> matrix_pixel nm n f w dat y x) s1 = Inl e" by blast
  then show ?thesis by (cases p) (simp add: matrix_pixel_Inl)
qed

lemma matrix_dither_pixel:
  assumes run: "matrix_dither nm n (Some img) (Some f) = Inr res"
    and len: "length (data img) = width img * height img * 4"
    and xy: "x < width img" "y < height img"
  shows "\<exists>c. resolved_at nm n f (width img) (data img) x y = Some c \<and> 3 \<le> length c \<and>
           pixel (data res) (width img) x y =
             stored c (toUint8Clamp (get (data img) ((y * width img + x) * 4 + 3)))"
proof -
  let ?w = "width img" and ?h = "height img"
  from run obtain out where
    out: "visit (\<lambda>(x, y). matrix_pixel nm n f ?w (data img) y x) (row_major ?w ?h)
            (Uint8ClampedArray_new (length (data img))) = Inr out"
    and res: "res = \<lparr>width = ?w, height = ?h, data = out\<rparr>"
    by (auto simp: matrix_dither_in_order dither_in_order_def split: sum.splits)
  have "length (Uint8ClampedArray_new (length (data img))) = ?w * ?h * 4"
    using len by (simp add: Uint8ClampedArray_new_def)
  from matrix_pass_visited[OF out this subset_refl, of x y] xy res
  show ?thesis by (simp add: in_row_major)
qed

lemma matrix_dither_shape:
  assumes run: "matrix_dither nm n (Some img) (Some f) = Inr res"
  shows "width res = width img \<and> height res = height img \<and> length (data res) = length (data img)"
proof -
  let ?w = "width img" and ?h = "height img"
  from run obtain out where
    out: "visit (\<lambda>(x, y). matrix_pixel nm n f ?w (data img) y x) (row_major ?w ?h)
            (Uint8ClampedArray_new (length (data img))) = Inr out"
    and res: "res = \<lparr>width = ?w, height = ?h, data = out\<rparr>"
    by (auto simp: matrix_dither_in_order dither_in_order_def split: sum.splits)
  from matrix_pass_length[OF out] res show ?thesis
    by (simp add: Uint8ClampedArray_new_def)
qed

lemma bayerMatrix_shape:
  "length bayerMatrix = 8" "list_all (\<lambda>row. length row = 8) bayerMatrix"
  "list_all (list_all (\<lambda>m. m \<le> 63)) bayerMatrix"
  by (simp_all add: bayerMatrix_def)

lemma orderedMatrix_shape:
  "length orderedMatrix = 4" "list_all (\<lambda>row. length row = 4) orderedMatrix"
  "list_all (list_all (\<lambda>m. m \<le> 15)) orderedMatrix"
  by (simp_all add: orderedMatrix_def)

lemma bayerMatrix_entry:
  assumes "i < 8" "j < 8"
  shows "length (bayerMatrix ! i) = 8" "bayerMatrix ! i ! j \<le> 63"
proof -
  from assms(1) bayerMatrix_shape show l: "length (bayerMatrix ! i) = 8"
    by (simp add: list_all_length)
  from assms(1) bayerMatrix_shape have "list_all (\<lambda>m. m \<le> 63) (bayerMatrix ! i)"
    by (simp add: list_all_length)
  with assms(2) l show "bayerMatrix ! i ! j \<le> 63" by (simp add: list_all_length)
qed

lemma orderedMatrix_entry:
  assumes "i < 4" "j < 4"
  shows "length (orderedMatrix ! i) = 4" "orderedMatrix ! i ! j \<le> 15"
proof -
  from assms(1) orderedMatrix_shape show l: "length (orderedMatrix ! i) = 4"
    by (simp add: list_all_length)
  from assms(1) orderedMatrix_shape have "list_all (\<lambda>m. m \<le> 15) (orderedMatrix ! i)"
    by (simp add: list_all_length)
  with assms(2) l show "orderedMatrix ! i ! j \<le> 15" by (simp add: list_all_length)
qed

lemma threshold_at_bayer:
  "threshold_at (normalize 64 bayerMatrix) 8 x y = Num (offset bayerMatrix 8 x y)"
proof -
  have i: "y mod 8 < 8" and j: "x mod 8 < 8" by simp_all
  note e = bayerMatrix_entry[OF i j]
  have "normalize 64 bayerMatrix ! (y mod 8) ! (x mod 8) =
      jsub (jdiv (jadd (Num (of_nat (bayerMatrix ! (y mod 8) ! (x mod 8)))) (Num (1 / 2))) (Num 64))
        (Num (1 / 2))"
    using i j e(1) bayerMatrix_shape(1)
    by (simp add: normalize_def del: jadd.simps jsub.simps jdiv.simps)
  also have "\<dots> = Num ((of_nat (bayerMatrix ! (y mod 8) ! (x mod 8)) + 1 / 2) / 64 - 1 / 2)"
    by (rule normalize_entry_64[OF e(2)])
  finally have nm: "normalize 64 bayerMatrix ! (y mod 8) ! (x mod 8) =
      Num ((of_nat (bayerMatrix ! (y mod 8) ! (x mod 8)) + 1 / 2) / 64 - 1 / 2)" .
  have "threshold_at (normalize 64 bayerMatrix) 8 x y =
      jmul (Num ((of_nat (bayerMatrix ! (y mod 8) ! (x mod 8)) + 1 / 2) / 64 - 1 / 2)) (Num 255)"
    by (simp only: threshold_at_def nm)
  also have "\<dots> = Num (((of_nat (bayerMatrix ! (y mod 8) ! (x mod 8)) + 1 / 2) / 64 - 1 / 2) * 255)"
    by (rule threshold_exact_64[OF e(2)])
  also have "((of_nat (bayerMatrix ! (y mod 8) ! (x mod 8)) + 1 / 2) / 64 - 1 / 2) * 255 =
      offset bayerMatrix 8 x y"
    by (simp add: offset_def)
  finally show ?thesis .
qed

lemma threshold_at_ordered:
  "threshold_at (normalize 16 orderedMatrix) 4 x y = Num (offset orderedMatrix 4 x y)"
proof -
  have i: "y mod 4 < 4" and j: "x mod 4 < 4" by simp_all
  note e = orderedMatrix_entry[OF i j]
  have "normalize 16 orderedMatrix ! (y mod 4) ! (x mod 4) =
      jsub (jdiv (jadd (Num (of_nat (orderedMatrix ! (y mod 4) ! (x mod 4)))) (Num (1 / 2))) (Num 16))
        (Num (1 / 2))"
    using i j e(1) orderedMatrix_shape(1)
    by (simp add: normalize_def del: jadd.simps jsub.simps jdiv.simps)
  also have "\<dots> = Num ((of_nat (orderedMatrix ! (y mod 4) ! (x mod 4)) + 1 / 2) / 16 - 1 / 2)"
    by (rule normalize_entry_16[OF e(2)])
  finally have nm: "normalize 16 orderedMatrix ! (y mod 4) ! (x mod 4) =
      Num ((of_nat (orderedMatrix ! (y mod 4) ! (x mod 4)) + 1 / 2) / 16 - 1 / 2)" .
  have "threshold_at (normalize 16 orderedMatrix) 4 x y =
      jmul (Num ((of_nat (orderedMatrix ! (y mod 4) ! (x mod 4)) + 1 / 2) / 16 - 1 / 2)) (Num 255)"
    by (simp only: threshold_at_def nm)
  also have "\<dots> = Num (((of_nat (orderedMatrix ! (y mod 4) ! (x mod 4)) + 1 / 2) / 16 - 1 / 2) * 255)"
    by (rule threshold_exact_16[OF e(2)])
  also have "((of_nat (orderedMatrix ! (y mod 4) ! (x mod 4)) + 1 / 2) / 16 - 1 / 2) * 255 =
      offset orderedMatrix 4 x y"
    by (simp add: offset_def)
  finally show ?thesis .
qed

lemma adjust_bayer:
  assumes "v \<le> 255"
  shows "adjust (Num (of_nat v)) (Num (offset bayerMatrix 8 x y)) = adjusted bayerMatrix 8 x y v"
proof -
  have i: "y mod 8 < 8" and j: "x mod 8 < 8" by simp_all
  note e = bayerMatrix_entry[OF i j]
  show ?thesis
    using adjust_exact_64[OF e(2) assms] by (simp add: adjusted_def offset_def)
qed

lemma adjust_ordered:
  assumes "v \<le> 255"
  shows "adjust (Num (of_nat v)) (Num (offset orderedMatrix 4 x y)) = adjusted orderedMatrix 4 x y v"
proof -
  have i: "y mod 4 < 4" and j: "x mod 4 < 4" by simp_all
  note e = orderedMatrix_entry[OF i j]
  show ?thesis
    using adjust_exact_16[OF e(2) assms] by (simp add: adjusted_def offset_def)
qed

lemma valid_get:
  assumes "valid_ImageData img" "x < width img" "y < height img" "c < 4"
  shows "get (data img) ((y * width img + x) * 4 + c) =
           Num (of_nat (data img ! ((y * width img + x) * 4 + c)))"
    and "data img ! ((y * width img + x) * 4 + c) \<le> 255"
proof -
  have "(y * width img + x) * 4 + c < length (data img)"
    using pixel_index_less[OF assms(2,3)] assms(1,4) by (simp add: valid_ImageData_def)
  then show "get (data img) ((y * width img + x) * 4 + c) =
           Num (of_nat (data img ! ((y * width img + x) * 4 + c)))"
    and "data img ! ((y * width img + x) * 4 + c) \<le> 255"
    using assms(1) by (simp_all add: get_def valid_ImageData_def list_all_length)
qed

section \<open>The ordered transforms: what a pixel becomes\<close>

lemma matrix_pixel_eval:
  "matrix_pixel nm n f w dat y x out =
     (case resolved_at nm n f w dat x y of
        None \<Rightarrow> Inl InvalidColor
      | Some c \<Rightarrow>
          if length c < 3 then Inl InvalidColor
          else Inr (put (put (put (put out ((y * w + x) * 4) (c ! 0)) ((y * w + x) * 4 + 1) (c ! 1))
                 ((y * w + x) * 4 + 2) (c ! 2)) ((y * w + x) * 4 + 3) (get dat ((y * w + x) * 4 + 3))))"
  by (simp only: matrix_pixel_def resolved_at_def threshold_at_def Let_def)

lemma resolved_at_bayer:
  assumes "valid_ImageData img" "x < width img" "y < height img"
  shows "resolved_at (normalize 64 bayerMatrix) 8 f (width img) (data img) x y =
     f (adjusted bayerMatrix 8 x y (pixel (data img) (width img) x y ! 0))
       (adjusted bayerMatrix 8 x y (pixel (data img) (width img) x y ! 1))
       (adjusted bayerMatrix 8 x y (pixel (data img) (width img) x y ! 2))"
  using valid_get[OF assms, of 0] valid_get[OF assms, of 1] valid_get[OF assms, of 2]
  by (simp add: resolved_at_def threshold_at_bayer adjust_bayer pixel_def)

lemma resolved_at_ordered:
  assumes "valid_ImageData img" "x < width img" "y < height img"
  shows "resolved_at (normalize 16 orderedMatrix) 4 f (width img) (data img) x y =
     f (adjusted orderedMatrix 4 x y (pixel (data img) (width img) x y ! 0))
       (adjusted orderedMatrix 4 x y (pixel (data img) (width img) x y ! 1))
       (adjusted orderedMatrix 4 x y (pixel (data img) (width img) x y ! 2))"
  using valid_get[OF assms, of 0] valid_get[OF assms, of 1] valid_get[OF assms, of 2]
  by (simp add: resolved_at_def threshold_at_ordered adjust_ordered pixel_def)

lemma valid_alpha:
  assumes "valid_ImageData img" "x < width img" "y < height img"
  shows "toUint8Clamp (get (data img) ((y * width img + x) * 4 + 3)) =
           pixel (data img) (width img) x y ! 3"
  using valid_get[OF assms, of 3] by (simp add: toUint8Clamp_byte pixel_def)

text \<open>
  Claim C5. For both ordered variants (\<open>bayer\<close>: the 8 x 8 matrix with values up to 63,
  \<open>ordered\<close>: the 4 x 4 matrix with values up to 15) and a valid buffer, the resolver is
  called at pixel \<open>(x, y)\<close> on the three colour channels adjusted to
  \<open>clamp(original + offset, 0, 255)\<close> with
  \<open>offset = ((M[y mod N][x mod N] + 0.5) / N^2 - 0.5) * 255\<close>, and its result is what the
  output holds at \<open>(x, y)\<close> (each channel through the store's conversion), next to the
  source's alpha byte. \<open>adjusted\<close> and \<open>offset\<close> are exact rationals: the binary64
  operations of the code do not round here.
\<close>

theorem ordered_variants_pixel:
  assumes "valid_ImageData img" "x < width img" "y < height img"
  shows "(\<forall>res. bayer (Some img) (Some resolve) = Inr res \<longrightarrow>
            (\<exists>c. resolve (adjusted bayerMatrix 8 x y (pixel (data img) (width img) x y ! 0))
                    (adjusted bayerMatrix 8 x y (pixel (data img) (width img) x y ! 1))
                    (adjusted bayerMatrix 8 x y (pixel (data img) (width img) x y ! 2)) = Some c
               \<and> 3 \<le> length c
               \<and> pixel (data res) (width img) x y = stored c (pixel (data img) (width img) x y ! 3)))
       \<and> (\<forall>res. ordered (Some img) (Some resolve) = Inr res \<longrightarrow>
            (\<exists>c. resolve (adjusted orderedMatrix 4 x y (pixel (data img) (width img) x y ! 0))
                    (adjusted orderedMatrix 4 x y (pixel (data img) (width img) x y ! 1))
                    (adjusted orderedMatrix 4 x y (pixel (data img) (width img) x y ! 2)) = Some c
               \<and> 3 \<le> length c
               \<and> pixel (data res) (width img) x y = stored c (pixel (data img) (width img) x y ! 3)))
       \<and> length bayerMatrix = 8 \<and> list_all (\<lambda>row. length row = 8) bayerMatrix
       \<and> list_all (list_all (\<lambda>m. m \<le> 63)) bayerMatrix
       \<and> length orderedMatrix = 4 \<and> list_all (\<lambda>row. length row = 4) orderedMatrix
       \<and> list_all (list_all (\<lambda>m. m \<le> 15)) orderedMatrix"
proof -
  have len: "length (data img) = width img * height img * 4"
    using assms(1) by (simp add: valid_ImageData_def)
  have b: "\<exists>c. resolve (adjusted bayerMatrix 8 x y (pixel (data img) (width img) x y ! 0))
                    (adjusted bayerMatrix 8 x y (pixel (data img) (width img) x y ! 1))
                    (adjusted bayerMatrix 8 x y (pixel (data img) (width img) x y ! 2)) = Some c
               \<and> 3 \<le> length c
               \<and> pixel (data res) (width img) x y = stored c (pixel (data img) (width img) x y ! 3)"
    if "bayer (Some img) (Some resolve) = Inr res" for res
    using matrix_dither_pixel[OF that[unfolded bayer_def] len assms(2,3)]
    by (simp only: resolved_at_bayer[OF assms] valid_alpha[OF assms])
  have o: "\<exists>c. resolve (adjusted orderedMatrix 4 x y (pixel (data img) (width img) x y ! 0))
                    (adjusted orderedMatrix 4 x y (pixel (data img) (width img) x y ! 1))
                    (adjusted orderedMatrix 4 x y (pixel (data img) (width img) x y ! 2)) = Some c
               \<and> 3 \<le> length c
               \<and> pixel (data res) (width img) x y = stored c (pixel (data img) (width img) x y ! 3)"
    if "ordered (Some img) (Some resolve) = Inr res" for res
    using matrix_dither_pixel[OF that[unfolded ordered_def] len assms(2,3)]
    by (simp only: resolved_at_ordered[OF assms] valid_alpha[OF assms])
  from b o bayerMatrix_shape orderedMatrix_shape show ?thesis by blast
qed

lemma row_major_1_1: "row_major 1 1 = [(0, 0)]"
  by (simp add: row_major_def)

lemma offset_0_0:
  "offset bayerMatrix 8 0 0 = - (16065 / 128)" "offset orderedMatrix 4 0 0 = - (3825 / 32)"
  by (simp_all add: offset_def bayerMatrix_def orderedMatrix_def)

lemma one_pixel_valid: "valid_ImageData one_pixel"
  by (simp add: valid_ImageData_def one_pixel_def)

lemma one_pixel_fields:
  "width one_pixel = 1" "height one_pixel = 1" "data one_pixel = [200, 150, 130, 40]"
  "Uint8ClampedArray_new (length [200, 150, 130, 40 :: nat]) = [0, 0, 0, 0]"
  by (simp_all add: one_pixel_def Uint8ClampedArray_new_def eval_nat_numeral)

lemmas matrix_eval_simps = matrix_pixel_eval resolved_at_def identityFn_def adjust_def
  get_def put_def toUint8Clamp.simps rhe_def Let_def

lemma one_pixel_bayer_step:
  "matrix_pixel (normalize 64 bayerMatrix) 8 identityFn 1 [200, 150, 130, 40] 0 0 [0, 0, 0, 0] =
     Inr [74, 24, 4, 40]"
  by (simp add: matrix_eval_simps threshold_at_bayer offset_0_0)

lemma one_pixel_ordered_step:
  "matrix_pixel (normalize 16 orderedMatrix) 4 identityFn 1 [200, 150, 130, 40] 0 0 [0, 0, 0, 0] =
     Inr [80, 30, 10, 40]"
  by (simp add: matrix_eval_simps threshold_at_ordered offset_0_0)

lemma one_pixel_bayer:
  "bayer (Some one_pixel) (Some identityFn) = Inr \<lparr>width = 1, height = 1, data = [74, 24, 4, 40]\<rparr>"
  unfolding bayer_def matrix_dither_in_order dither_in_order_def
  by (simp only: one_pixel_fields row_major_1_1 visit.simps prod.case sum.case one_pixel_bayer_step)

lemma one_pixel_ordered:
  "ordered (Some one_pixel) (Some identityFn) = Inr \<lparr>width = 1, height = 1, data = [80, 30, 10, 40]\<rparr>"
  unfolding ordered_def matrix_dither_in_order dither_in_order_def
  by (simp only: one_pixel_fields row_major_1_1 visit.simps prod.case sum.case one_pixel_ordered_step)

theorem ordered_variants_pixel_witness:
  "valid_ImageData one_pixel \<and> (0::nat) < width one_pixel \<and> (0::nat) < height one_pixel
   \<and> bayer (Some one_pixel) (Some identityFn) = Inr \<lparr>width = 1, height = 1, data = [74, 24, 4, 40]\<rparr>
   \<and> (\<exists>c. identityFn (adjusted bayerMatrix 8 0 0 200) (adjusted bayerMatrix 8 0 0 150)
             (adjusted bayerMatrix 8 0 0 130) = Some c
          \<and> 3 \<le> length c \<and> [74, 24, 4, 40] = stored c 40)
   \<and> ordered (Some one_pixel) (Some identityFn) = Inr \<lparr>width = 1, height = 1, data = [80, 30, 10, 40]\<rparr>
   \<and> (\<exists>c. identityFn (adjusted orderedMatrix 4 0 0 200) (adjusted orderedMatrix 4 0 0 150)
             (adjusted orderedMatrix 4 0 0 130) = Some c
          \<and> 3 \<le> length c \<and> [80, 30, 10, 40] = stored c 40)"
proof -
  have w: "(0::nat) < width one_pixel" "(0::nat) < height one_pixel"
    by (simp_all add: one_pixel_def)
  have px: "pixel (data one_pixel) (width one_pixel) 0 0 = [200, 150, 130, 40]"
    "pixel [74, 24, 4, 40] (width one_pixel) 0 0 = [74, 24, 4, 40]"
    "pixel [80, 30, 10, 40] (width one_pixel) 0 0 = [80, 30, 10, 40]"
    by (simp_all add: pixel_def one_pixel_def)
  from ordered_variants_pixel[OF one_pixel_valid w, of identityFn]
    one_pixel_bayer one_pixel_ordered one_pixel_valid w px
  show ?thesis by simp
qed

section \<open>The ordered transforms: no dependency between pixels\<close>

lemma matrix_pass_set_eq:
  assumes sets: "set ps = set ps'" and inb: "set ps \<subseteq> set (row_major w h)"
    and len: "length out0 = w * h * 4"
  shows "visit (\<lambda>(x, y). matrix_pixel nm n f w dat y x) ps out0 =
         visit (\<lambda>(x, y). matrix_pixel nm n f w dat y x) ps' out0"
proof -
  let ?step = "\<lambda>(x, y). matrix_pixel nm n f w dat y x"
  have inb': "set ps' \<subseteq> set (row_major w h)" using sets inb by simp
  show ?thesis
  proof (cases "\<exists>out. visit ?step ps out0 = Inr out")
    case True
    then obtain out where out: "visit ?step ps out0 = Inr out" ..
    have "\<exists>out. visit ?step ps' out0 = Inr out"
      using True matrix_pass_Inr_iff[of nm n f w dat ps out0]
        matrix_pass_Inr_iff[of nm n f w dat ps' out0] sets by simp
    then obtain out' where out': "visit ?step ps' out0 = Inr out'" ..
    have l: "length out = w * h * 4" "length out' = w * h * 4"
      using matrix_pass_length[OF out] matrix_pass_length[OF out'] len by simp_all
    have "out = out'"
    proof (rule nth_equalityI)
      show "length out = length out'" using l by simp
    next
      fix i
      assume "i < length out"
      with l have i: "i < w * h * 4" by simp
      define q where "q = i div 4"
      define c where "c = i mod 4"
      define x where "x = q mod w"
      define y where "y = q div w"
      have q: "q < w * h" using i by (simp add: q_def)
      then have w0: "0 < w" by (cases w) simp_all
      have x: "x < w" using w0 by (simp add: x_def)
      have "q < h * w" using q by (simp add: mult.commute)
      then have y: "y < h" unfolding y_def using w0 by (simp add: div_less_iff_less_mult)
      have idx: "i = (y * w + x) * 4 + c" by (simp add: x_def y_def q_def c_def)
      have c4: "c < 4" by (simp add: c_def)
      have mem: "(x, y) \<in> set (row_major w h)" using x y by (simp add: in_row_major)
      have "pixel out w x y = pixel out' w x y"
      proof (cases "(x, y) \<in> set ps")
        case True
        with sets have True': "(x, y) \<in> set ps'" by simp
        from matrix_pass_visited[OF out len inb True] matrix_pass_visited[OF out' len inb' True']
        show ?thesis by auto
      next
        case False
        with sets have False': "(x, y) \<notin> set ps'" by simp
        from matrix_pass_unvisited[OF out inb mem False]
          matrix_pass_unvisited[OF out' inb' mem False']
        show ?thesis by simp
      qed
      then have "pixel out w x y ! c = pixel out' w x y ! c" by simp
      then show "out ! i = out' ! i" using c4 by (simp add: pixel_nth idx)
    qed
    with out out' show ?thesis by simp
  next
    case False
    then obtain e where e: "visit ?step ps out0 = Inl e" by (cases "visit ?step ps out0") auto
    have "\<not> (\<exists>out. visit ?step ps' out0 = Inr out)"
      using False matrix_pass_Inr_iff[of nm n f w dat ps out0]
        matrix_pass_Inr_iff[of nm n f w dat ps' out0] sets by simp
    then obtain e' where e': "visit ?step ps' out0 = Inl e'"
      by (cases "visit ?step ps' out0") auto
    from matrix_pass_Inl[OF e] matrix_pass_Inl[OF e'] e e' show ?thesis by simp
  qed
qed

lemma dither_in_order_set_eq:
  assumes "set ps = set (row_major (width img) (height img))"
    and "length (data img) = width img * height img * 4"
  shows "dither_in_order nm n ps img f = matrix_dither nm n (Some img) (Some f)"
proof -
  have "length (Uint8ClampedArray_new (length (data img))) = width img * height img * 4"
    using assms(2) by (simp add: Uint8ClampedArray_new_def)
  from matrix_pass_set_eq[OF assms(1) _ this, of nm n f "data img"] assms(1)
  show ?thesis by (simp add: matrix_dither_in_order dither_in_order_def)
qed

lemma resolved_at_cong:
  assumes "length dat = length dat'" "pixel dat w x y = pixel dat' w x y"
  shows "resolved_at nm n f w dat x y = resolved_at nm n f w dat' x y"
    and "get dat ((y * w + x) * 4 + 3) = get dat' ((y * w + x) * 4 + 3)"
proof -
  have "dat ! ((y * w + x) * 4 + c) = dat' ! ((y * w + x) * 4 + c)" if "c < 4" for c
    using assms(2) pixel_nth[OF that] by metis
  from this[of 0] this[of 1] this[of 2] this[of 3] assms(1)
  show "resolved_at nm n f w dat x y = resolved_at nm n f w dat' x y"
    and "get dat ((y * w + x) * 4 + 3) = get dat' ((y * w + x) * 4 + 3)"
    by (simp_all add: resolved_at_def get_def)
qed

lemma matrix_dither_independent:
  assumes wh: "width img1 = width img2" "height img1 = height img2"
    and len: "length (data img1) = width img1 * height img1 * 4"
      "length (data img2) = width img2 * height img2 * 4"
    and xy: "x < width img1" "y < height img1"
    and px: "pixel (data img1) (width img1) x y = pixel (data img2) (width img1) x y"
    and run: "matrix_dither nm n (Some img1) (Some f) = Inr r1"
      "matrix_dither nm n (Some img2) (Some f) = Inr r2"
  shows "pixel (data r1) (width img1) x y = pixel (data r2) (width img1) x y"
proof -
  have ll: "length (data img1) = length (data img2)" using len wh by simp
  note cg = resolved_at_cong(1)[OF ll px, where nm = nm and n = n and f = f]
    resolved_at_cong(2)[OF ll px]
  from matrix_dither_pixel[OF run(1) len(1) xy]
    matrix_dither_pixel[OF run(2) len(2), of x y] xy wh cg
  show ?thesis by auto
qed

text \<open>
  Claim C6. In the ordered variants a pixel of the output depends on the same pixel of the
  source and on its coordinates only: two buffers of the same dimensions that agree on the
  four bytes of pixel \<open>(x, y)\<close> give outputs that agree on pixel \<open>(x, y)\<close>, whatever the
  resolver. And the order of the visit does not matter: visiting the pixels in the order of
  any list with the same members as \<open>row_major\<close> (any permutation of it, in particular)
  gives the very result of \<open>bayer\<close> and of \<open>ordered\<close>, error or buffer.
\<close>

theorem ordered_variants_pixel_local:
  assumes "width img1 = width img2" "height img1 = height img2"
    and "length (data img1) = width img1 * height img1 * 4"
    and "length (data img2) = width img2 * height img2 * 4"
    and "x < width img1" "y < height img1"
    and "pixel (data img1) (width img1) x y = pixel (data img2) (width img1) x y"
  shows "(\<forall>r1 r2. bayer (Some img1) (Some resolve) = Inr r1 \<and>
                 bayer (Some img2) (Some resolve) = Inr r2 \<longrightarrow>
            pixel (data r1) (width img1) x y = pixel (data r2) (width img1) x y)
       \<and> (\<forall>r1 r2. ordered (Some img1) (Some resolve) = Inr r1 \<and>
                 ordered (Some img2) (Some resolve) = Inr r2 \<longrightarrow>
            pixel (data r1) (width img1) x y = pixel (data r2) (width img1) x y)
       \<and> (\<forall>ps. set ps = set (row_major (width img1) (height img1)) \<longrightarrow>
            dither_in_order (normalize 64 bayerMatrix) 8 ps img1 resolve =
              bayer (Some img1) (Some resolve) \<and>
            dither_in_order (normalize 16 orderedMatrix) 4 ps img1 resolve =
              ordered (Some img1) (Some resolve))"
proof (intro conjI allI impI)
  fix r1 r2
  assume "bayer (Some img1) (Some resolve) = Inr r1 \<and> bayer (Some img2) (Some resolve) = Inr r2"
  then show "pixel (data r1) (width img1) x y = pixel (data r2) (width img1) x y"
    unfolding bayer_def using matrix_dither_independent[OF assms] by blast
next
  fix r1 r2
  assume "ordered (Some img1) (Some resolve) = Inr r1 \<and> ordered (Some img2) (Some resolve) = Inr r2"
  then show "pixel (data r1) (width img1) x y = pixel (data r2) (width img1) x y"
    unfolding ordered_def using matrix_dither_independent[OF assms] by blast
next
  fix ps
  assume ps: "set ps = set (row_major (width img1) (height img1))"
  show "dither_in_order (normalize 64 bayerMatrix) 8 ps img1 resolve = bayer (Some img1) (Some resolve)"
    unfolding bayer_def by (rule dither_in_order_set_eq[OF ps assms(3)])
  show "dither_in_order (normalize 16 orderedMatrix) 4 ps img1 resolve = ordered (Some img1) (Some resolve)"
    unfolding ordered_def by (rule dither_in_order_set_eq[OF ps assms(3)])
qed

lemma row_major_2_1: "row_major 2 1 = [(0, 0), (1, 0)]"
  by (simp add: row_major_def upt_rec)

lemma offset_1_0:
  "offset bayerMatrix 8 1 0 = 8415 / 128" "offset bayerMatrix 8 (Suc 0) 0 = 8415 / 128"
  by (simp_all add: offset_def bayerMatrix_def)

lemma two_pixels_fields:
  "width two_pixels_a = 2" "height two_pixels_a = 1"
  "data two_pixels_a = [200, 150, 130, 40, 1, 2, 3, 4]"
  "width two_pixels_b = 2" "height two_pixels_b = 1"
  "data two_pixels_b = [200, 150, 130, 40, 9, 9, 9, 9]"
  "Uint8ClampedArray_new (length [200, 150, 130, 40, 1, 2, 3, 4 :: nat]) = [0, 0, 0, 0, 0, 0, 0, 0]"
  "Uint8ClampedArray_new (length [200, 150, 130, 40, 9, 9, 9, 9 :: nat]) = [0, 0, 0, 0, 0, 0, 0, 0]"
  by (simp_all add: two_pixels_a_def two_pixels_b_def Uint8ClampedArray_new_def eval_nat_numeral)

lemma two_pixels_a_steps:
  "matrix_pixel (normalize 64 bayerMatrix) 8 identityFn 2 [200, 150, 130, 40, 1, 2, 3, 4] 0 0
     [0, 0, 0, 0, 0, 0, 0, 0] = Inr [74, 24, 4, 40, 0, 0, 0, 0]"
  "matrix_pixel (normalize 64 bayerMatrix) 8 identityFn 2 [200, 150, 130, 40, 1, 2, 3, 4] 0 1
     [74, 24, 4, 40, 0, 0, 0, 0] = Inr [74, 24, 4, 40, 67, 68, 69, 4]"
  "matrix_pixel (normalize 64 bayerMatrix) 8 identityFn 2 [200, 150, 130, 40, 1, 2, 3, 4] 0 1
     [0, 0, 0, 0, 0, 0, 0, 0] = Inr [0, 0, 0, 0, 67, 68, 69, 4]"
  "matrix_pixel (normalize 64 bayerMatrix) 8 identityFn 2 [200, 150, 130, 40, 1, 2, 3, 4] 0 0
     [0, 0, 0, 0, 67, 68, 69, 4] = Inr [74, 24, 4, 40, 67, 68, 69, 4]"
  by (simp_all add: matrix_eval_simps threshold_at_bayer offset_0_0 offset_1_0)

lemma two_pixels_b_steps:
  "matrix_pixel (normalize 64 bayerMatrix) 8 identityFn 2 [200, 150, 130, 40, 9, 9, 9, 9] 0 0
     [0, 0, 0, 0, 0, 0, 0, 0] = Inr [74, 24, 4, 40, 0, 0, 0, 0]"
  "matrix_pixel (normalize 64 bayerMatrix) 8 identityFn 2 [200, 150, 130, 40, 9, 9, 9, 9] 0 1
     [74, 24, 4, 40, 0, 0, 0, 0] = Inr [74, 24, 4, 40, 75, 75, 75, 9]"
  by (simp_all add: matrix_eval_simps threshold_at_bayer offset_0_0 offset_1_0)

lemma two_pixels_a_bayer:
  "bayer (Some two_pixels_a) (Some identityFn) =
     Inr \<lparr>width = 2, height = 1, data = [74, 24, 4, 40, 67, 68, 69, 4]\<rparr>"
  unfolding bayer_def matrix_dither_in_order dither_in_order_def
  by (simp only: two_pixels_fields row_major_2_1 visit.simps prod.case sum.case two_pixels_a_steps)

lemma two_pixels_b_bayer:
  "bayer (Some two_pixels_b) (Some identityFn) =
     Inr \<lparr>width = 2, height = 1, data = [74, 24, 4, 40, 75, 75, 75, 9]\<rparr>"
  unfolding bayer_def matrix_dither_in_order dither_in_order_def
  by (simp only: two_pixels_fields row_major_2_1 visit.simps prod.case sum.case two_pixels_b_steps)

lemma two_pixels_a_reversed:
  "dither_in_order (normalize 64 bayerMatrix) 8 [(1, 0), (0, 0)] two_pixels_a identityFn =
     Inr \<lparr>width = 2, height = 1, data = [74, 24, 4, 40, 67, 68, 69, 4]\<rparr>"
  unfolding dither_in_order_def
  by (simp only: two_pixels_fields visit.simps prod.case sum.case two_pixels_a_steps)

theorem ordered_variants_pixel_local_witness:
  "width two_pixels_a = width two_pixels_b \<and> height two_pixels_a = height two_pixels_b
   \<and> length (data two_pixels_a) = width two_pixels_a * height two_pixels_a * 4
   \<and> length (data two_pixels_b) = width two_pixels_b * height two_pixels_b * 4
   \<and> (0::nat) < width two_pixels_a \<and> (0::nat) < height two_pixels_a
   \<and> pixel (data two_pixels_a) (width two_pixels_a) 0 0 =
       pixel (data two_pixels_b) (width two_pixels_a) 0 0
   \<and> data two_pixels_a \<noteq> data two_pixels_b
   \<and> bayer (Some two_pixels_a) (Some identityFn) =
       Inr \<lparr>width = 2, height = 1, data = [74, 24, 4, 40, 67, 68, 69, 4]\<rparr>
   \<and> bayer (Some two_pixels_b) (Some identityFn) =
       Inr \<lparr>width = 2, height = 1, data = [74, 24, 4, 40, 75, 75, 75, 9]\<rparr>
   \<and> pixel [74, 24, 4, 40, 67, 68, 69, 4] (width two_pixels_a) 0 0 =
       pixel [74, 24, 4, 40, 75, 75, 75, 9] (width two_pixels_a) 0 0
   \<and> set [(1, 0), (0, 0)] = set (row_major (width two_pixels_a) (height two_pixels_a))
   \<and> dither_in_order (normalize 64 bayerMatrix) 8 [(1, 0), (0, 0)] two_pixels_a identityFn =
       bayer (Some two_pixels_a) (Some identityFn)"
proof -
  have h: "width two_pixels_a = width two_pixels_b" "height two_pixels_a = height two_pixels_b"
    "length (data two_pixels_a) = width two_pixels_a * height two_pixels_a * 4"
    "length (data two_pixels_b) = width two_pixels_b * height two_pixels_b * 4"
    "(0::nat) < width two_pixels_a" "(0::nat) < height two_pixels_a"
    "pixel (data two_pixels_a) (width two_pixels_a) 0 0 =
       pixel (data two_pixels_b) (width two_pixels_a) 0 0"
    by (simp_all add: two_pixels_a_def two_pixels_b_def pixel_def)
  have ne: "data two_pixels_a \<noteq> data two_pixels_b"
    by (simp add: two_pixels_a_def two_pixels_b_def)
  have s: "set [(1, 0), (0, 0)] = set (row_major (width two_pixels_a) (height two_pixels_a))"
    unfolding two_pixels_fields row_major_2_1 by auto
  from ordered_variants_pixel_local[OF h, of identityFn] h ne s
    two_pixels_a_bayer two_pixels_b_bayer
  show ?thesis by simp
qed

section \<open>The alpha channel, the size and the range of the output\<close>

lemma matrix_pixel_range:
  assumes "matrix_pixel nm n f w dat y x out = Inr out'" "list_all (\<lambda>v. v \<le> 255) out"
  shows "list_all (\<lambda>v. v \<le> 255) out'"
  using assms by (auto simp: matrix_pixel_Inr put_le)

lemma matrix_dither_range:
  assumes "matrix_dither nm n (Some img) (Some f) = Inr res"
  shows "list_all (\<lambda>v. v \<le> 255) (data res)"
proof -
  let ?w = "width img" and ?h = "height img"
  from assms obtain out where
    out: "visit (\<lambda>(x, y). matrix_pixel nm n f ?w (data img) y x) (row_major ?w ?h)
            (Uint8ClampedArray_new (length (data img))) = Inr out"
    and res: "res = \<lparr>width = ?w, height = ?h, data = out\<rparr>"
    by (auto simp: matrix_dither_in_order dither_in_order_def split: sum.splits)
  have "list_all (\<lambda>v. v \<le> 255) out"
  proof (rule visit_preserves[OF _ _ out])
    show "list_all (\<lambda>v. v \<le> 255) (Uint8ClampedArray_new (length (data img)))"
      by (simp add: Uint8ClampedArray_new_def list_all_iff)
  next
    fix p :: "nat \<times> nat" and s s' :: "nat list"
    assume "list_all (\<lambda>v. v \<le> 255) s"
      and "(case p of (x, y) \<Rightarrow> matrix_pixel nm n f ?w (data img) y x) s = Inr s'"
    then show "list_all (\<lambda>v. v \<le> 255) s'"
      by (cases p) (auto dest: matrix_pixel_range)
  qed
  with res show ?thesis by simp
qed

lemma matrix_dither_succeeds:
  assumes "\<And>r g b. \<not> unusable (f r g b)"
  shows "\<exists>res. matrix_dither nm n (Some img) (Some f) = Inr res"
proof -
  have "\<forall>(x, y) \<in> set (row_major (width img) (height img)).
          \<not> unusable (resolved_at nm n f (width img) (data img) x y)"
    using assms by (auto simp: resolved_at_def)
  then have "\<exists>out. visit (\<lambda>(x, y). matrix_pixel nm n f (width img) (data img) y x)
      (row_major (width img) (height img)) (Uint8ClampedArray_new (length (data img))) = Inr out"
    by (simp only: matrix_pass_Inr_iff)
  then show ?thesis
    by (auto simp: matrix_dither_in_order dither_in_order_def)
qed

lemma usable_iff: "\<not> unusable c \<longleftrightarrow> (\<exists>a. c = Some a \<and> 3 \<le> length a)"
  by (auto simp: unusable_def split: option.splits)

text \<open>
  Claim C9. In all three transforms the alpha byte of every pixel of the output is the
  alpha byte of the same pixel of a valid source.
\<close>

theorem alpha_unchanged:
  assumes "valid_ImageData img" "x < width img" "y < height img"
  shows "(\<forall>res. floydSteinberg (Some img) (Some resolve) = Inr res \<longrightarrow>
            pixel (data res) (width img) x y ! 3 = pixel (data img) (width img) x y ! 3)
       \<and> (\<forall>res. bayer (Some img) (Some resolve) = Inr res \<longrightarrow>
            pixel (data res) (width img) x y ! 3 = pixel (data img) (width img) x y ! 3)
       \<and> (\<forall>res. ordered (Some img) (Some resolve) = Inr res \<longrightarrow>
            pixel (data res) (width img) x y ! 3 = pixel (data img) (width img) x y ! 3)"
proof -
  have len: "length (data img) = width img * height img * 4"
    using assms(1) by (simp add: valid_ImageData_def)
  have m: "pixel (data res) (width img) x y ! 3 = pixel (data img) (width img) x y ! 3"
    if "matrix_dither nm n (Some img) (Some resolve) = Inr res" for nm n res
    using matrix_dither_pixel[OF that len assms(2,3)] valid_alpha[OF assms]
    by (auto simp: stored_def)
  have f: "pixel (data res) (width img) x y ! 3 = pixel (data img) (width img) x y ! 3"
    if "floydSteinberg (Some img) (Some resolve) = Inr res" for res
    using error_diffusion_alpha[OF that[unfolded floydSteinberg_eq] assms] .
  from m f show ?thesis unfolding bayer_def ordered_def by blast
qed

lemma two_pixels_a_fs_steps:
  "fs_pixel identityFn 2 1 0 0
     ([200, 150, 130, 40, 1, 2, 3, 4], [200, 150, 130, 40, 1, 2, 3, 4]) =
   Inr ([200, 150, 130, 40, 1, 2, 3, 4], [200, 150, 130, 40, 1, 2, 3, 4])"
  "fs_pixel identityFn 2 1 0 1
     ([200, 150, 130, 40, 1, 2, 3, 4], [200, 150, 130, 40, 1, 2, 3, 4]) =
   Inr ([200, 150, 130, 40, 1, 2, 3, 4], [200, 150, 130, 40, 1, 2, 3, 4])"
  by (simp_all add: eval_simps identityFn_def)

lemma two_pixels_a_floydSteinberg:
  "floydSteinberg (Some two_pixels_a) (Some identityFn) =
     Inr \<lparr>width = 2, height = 1, data = [200, 150, 130, 40, 1, 2, 3, 4]\<rparr>"
proof -
  have c: "Uint8ClampedArray_from [200, 150, 130, 40, 1, 2, 3, 4] = [200, 150, 130, 40, 1, 2, 3, 4]"
    by (simp add: Uint8ClampedArray_from_def toUint8Clamp_of_nat)
  show ?thesis
    unfolding floydSteinberg_def Let_def
    by (simp only: option.case prod.case sum.case fs_rows_row_major two_pixels_fields c
        row_major_2_1 visit.simps two_pixels_a_fs_steps)
qed

theorem alpha_unchanged_witness:
  "valid_ImageData two_pixels_a \<and> (1::nat) < width two_pixels_a \<and> (0::nat) < height two_pixels_a
   \<and> floydSteinberg (Some two_pixels_a) (Some identityFn) =
       Inr \<lparr>width = 2, height = 1, data = [200, 150, 130, 40, 1, 2, 3, 4]\<rparr>
   \<and> bayer (Some two_pixels_a) (Some identityFn) =
       Inr \<lparr>width = 2, height = 1, data = [74, 24, 4, 40, 67, 68, 69, 4]\<rparr>
   \<and> pixel (data two_pixels_a) (width two_pixels_a) 1 0 ! 3 = 4
   \<and> pixel [200, 150, 130, 40, 1, 2, 3, 4] (width two_pixels_a) 1 0 ! 3 = 4
   \<and> pixel [74, 24, 4, 40, 67, 68, 69, 4] (width two_pixels_a) 1 0 ! 3 = 4"
proof -
  have v: "valid_ImageData two_pixels_a" by (simp add: valid_ImageData_def two_pixels_a_def)
  have w: "(1::nat) < width two_pixels_a" "(0::nat) < height two_pixels_a"
    by (simp_all add: two_pixels_a_def)
  have p: "pixel (data two_pixels_a) (width two_pixels_a) 1 0 ! 3 = 4"
    by (simp add: pixel_def two_pixels_a_def)
  from alpha_unchanged[OF v w, of identityFn] two_pixels_a_floydSteinberg two_pixels_a_bayer v w p
  show ?thesis by simp
qed

text \<open>
  Claim C10. When the data length is \<open>width * height * 4\<close> and every answer of the
  resolver has at least three entries, each of the three transforms returns a buffer: of
  the same width and height, of length \<open>width * height * 4\<close>, all of whose values are
  integers between 0 and 255, whatever numbers the resolver returns, since every store
  goes through \<open>toUint8Clamp\<close>.
\<close>

theorem transforms_return_byte_buffers:
  assumes "length (data img) = width img * height img * 4"
    and "\<forall>r g b. \<exists>c. resolve r g b = Some c \<and> 3 \<le> length c"
  shows "(\<exists>res. floydSteinberg (Some img) (Some resolve) = Inr res
            \<and> width res = width img \<and> height res = height img
            \<and> length (data res) = width img * height img * 4
            \<and> list_all (\<lambda>v. 0 \<le> v \<and> v \<le> 255) (data res))
       \<and> (\<exists>res. bayer (Some img) (Some resolve) = Inr res
            \<and> width res = width img \<and> height res = height img
            \<and> length (data res) = width img * height img * 4
            \<and> list_all (\<lambda>v. 0 \<le> v \<and> v \<le> 255) (data res))
       \<and> (\<exists>res. ordered (Some img) (Some resolve) = Inr res
            \<and> width res = width img \<and> height res = height img
            \<and> length (data res) = width img * height img * 4
            \<and> list_all (\<lambda>v. 0 \<le> v \<and> v \<le> 255) (data res))"
proof -
  have ok: "\<not> unusable (resolve r g b)" for r g b
    using assms(2) by (simp add: usable_iff)
  have f: "\<exists>res. floydSteinberg (Some img) (Some resolve) = Inr res
            \<and> width res = width img \<and> height res = height img
            \<and> length (data res) = width img * height img * 4
            \<and> list_all (\<lambda>v. 0 \<le> v \<and> v \<le> 255) (data res)"
  proof -
    from error_diffusion_succeeds[of resolve img, OF ok] obtain res where
      res: "error_diffusion img resolve = Inr res" by blast
    from error_diffusion_shape[OF res] res assms(1) show ?thesis
      by (auto simp: floydSteinberg_eq)
  qed
  have m: "\<exists>res. matrix_dither nm n (Some img) (Some resolve) = Inr res
            \<and> width res = width img \<and> height res = height img
            \<and> length (data res) = width img * height img * 4
            \<and> list_all (\<lambda>v. 0 \<le> v \<and> v \<le> 255) (data res)" for nm n
  proof -
    from matrix_dither_succeeds[of resolve nm n img, OF ok] obtain res where
      res: "matrix_dither nm n (Some img) (Some resolve) = Inr res" by blast
    from matrix_dither_shape[OF res] matrix_dither_range[OF res] res assms(1) show ?thesis
      by auto
  qed
  from f m show ?thesis unfolding bayer_def ordered_def by blast
qed

lemma wildFn_steps:
  "fs_pixel wildFn 1 1 0 0 ([200, 150, 130, 40], [200, 150, 130, 40]) =
     Inr ([200, 150, 130, 40], [255, 0, 2, 40])"
  "matrix_pixel (normalize 64 bayerMatrix) 8 wildFn 1 [200, 150, 130, 40] 0 0 [0, 0, 0, 0] =
     Inr [255, 0, 2, 40]"
  "matrix_pixel (normalize 16 orderedMatrix) 4 wildFn 1 [200, 150, 130, 40] 0 0 [0, 0, 0, 0] =
     Inr [255, 0, 2, 40]"
  by (simp_all add: eval_simps matrix_pixel_eval resolved_at_def wildFn_def)

lemma one_pixel_copy: "Uint8ClampedArray_from [200, 150, 130, 40] = [200, 150, 130, 40]"
  by (simp add: Uint8ClampedArray_from_def toUint8Clamp_of_nat)

lemma wildFn_results:
  "floydSteinberg (Some one_pixel) (Some wildFn) =
     Inr \<lparr>width = 1, height = 1, data = [255, 0, 2, 40]\<rparr>"
  "bayer (Some one_pixel) (Some wildFn) = Inr \<lparr>width = 1, height = 1, data = [255, 0, 2, 40]\<rparr>"
  "ordered (Some one_pixel) (Some wildFn) = Inr \<lparr>width = 1, height = 1, data = [255, 0, 2, 40]\<rparr>"
  unfolding floydSteinberg_def Let_def bayer_def ordered_def matrix_dither_in_order
    dither_in_order_def
  by (simp_all only: option.case prod.case sum.case fs_rows_row_major one_pixel_fields
      one_pixel_copy row_major_1_1 visit.simps wildFn_steps)

theorem transforms_return_byte_buffers_witness:
  "length (data one_pixel) = width one_pixel * height one_pixel * 4
   \<and> (\<exists>c. wildFn (Num 1) (Num 2) (Num 3) = Some c \<and> 3 \<le> length c
          \<and> c = [Num 300, Num (- 20), Num (5 / 2), Num 7])
   \<and> floydSteinberg (Some one_pixel) (Some wildFn) =
       Inr \<lparr>width = 1, height = 1, data = [255, 0, 2, 40]\<rparr>
   \<and> bayer (Some one_pixel) (Some wildFn) = Inr \<lparr>width = 1, height = 1, data = [255, 0, 2, 40]\<rparr>
   \<and> ordered (Some one_pixel) (Some wildFn) = Inr \<lparr>width = 1, height = 1, data = [255, 0, 2, 40]\<rparr>
   \<and> list_all (\<lambda>v. 0 \<le> v \<and> v \<le> 255) [255, 0, 2, 40 :: nat]"
proof -
  have l: "length (data one_pixel) = width one_pixel * height one_pixel * 4"
    by (simp add: one_pixel_def)
  have r: "\<forall>r g b. \<exists>c. wildFn r g b = Some c \<and> 3 \<le> length c"
    by (simp add: wildFn_def)
  from transforms_return_byte_buffers[OF l r] wildFn_results l
  show ?thesis by (simp add: wildFn_def)
qed

section \<open>Answers of the resolver that end a call\<close>

lemma unusable_malformed: "unusable c \<Longrightarrow> malformed c"
  by (auto simp: unusable_def malformed_def split: option.splits)

lemma wildFn_malformed: "malformed (wildFn r g b)" "\<not> unusable (wildFn r g b)"
  by (simp_all add: malformed_def unusable_def wildFn_def)

lemma visit_prefix_cong:
  assumes "row_major w h = pre @ p # post"
  shows "visit (\<lambda>(x, y). fs_pixel f w h y x) pre s = visit (diffuse_pixel f w h) pre s"
proof (rule visit_cong)
  fix q :: "nat \<times> nat" and t :: "nat list \<times> nat list"
  assume "q \<in> set pre"
  then have "q \<in> set (row_major w h)" using assms by simp
  moreover obtain x y where q: "q = (x, y)" by (cases q)
  ultimately have "x < w" "y < h" by (simp_all add: in_row_major)
  with q show "(case q of (x, y) \<Rightarrow> fs_pixel f w h y x) t = diffuse_pixel f w h q t"
    by (simp add: fs_pixel_diffuse_pixel)
qed

lemma error_diffusion_Inl:
  "error_diffusion img f = Inl e \<longleftrightarrow>
     e = Failed InvalidColor \<and>
     (\<exists>pre x y post work out.
        row_major (width img) (height img) = pre @ (x, y) # post \<and>
        visit (\<lambda>(x, y). fs_pixel f (width img) (height img) y x) pre
          (Uint8ClampedArray_from (data img), Uint8ClampedArray_from (data img)) = Inr (work, out) \<and>
        unusable (f (channel work (width img) x y 0) (channel work (width img) x y 1)
                    (channel work (width img) x y 2)))"
  (is "?l \<longleftrightarrow> ?r")
proof
  let ?w = "width img" and ?h = "height img" and ?d = "Uint8ClampedArray_from (data img)"
  assume ?l
  then obtain e' where v: "visit (diffuse_pixel f ?w ?h) (row_major ?w ?h) (?d, ?d) = Inl e'"
    and e: "e = Failed e'"
    by (auto simp: error_diffusion_def Let_def split: sum.splits)
  from visit_Inl_cases[OF v] obtain pre p post s1 where
    rm: "row_major ?w ?h = pre @ p # post"
    and pre: "visit (diffuse_pixel f ?w ?h) pre (?d, ?d) = Inr s1"
    and st: "diffuse_pixel f ?w ?h p s1 = Inl e'"
    by blast
  obtain x y where p: "p = (x, y)" by (cases p)
  obtain work out where s1: "s1 = (work, out)" by (cases s1)
  from st have "e' = InvalidColor"
    and u: "unusable (f (channel work ?w x y 0) (channel work ?w x y 1) (channel work ?w x y 2))"
    unfolding p s1 by (simp_all add: diffuse_pixel_Inl)
  moreover from pre have
    "visit (\<lambda>(x, y). fs_pixel f ?w ?h y x) pre (?d, ?d) = Inr (work, out)"
    unfolding s1 by (simp add: visit_prefix_cong[OF rm])
  ultimately show ?r using e rm unfolding p by blast
next
  let ?w = "width img" and ?h = "height img" and ?d = "Uint8ClampedArray_from (data img)"
  assume r: ?r
  then obtain pre x y post work out where
    rm: "row_major ?w ?h = pre @ (x, y) # post"
    and pre: "visit (\<lambda>(x, y). fs_pixel f ?w ?h y x) pre (?d, ?d) = Inr (work, out)"
    and u: "unusable (f (channel work ?w x y 0) (channel work ?w x y 1) (channel work ?w x y 2))"
    and e: "e = Failed InvalidColor"
    by blast
  from pre have "visit (diffuse_pixel f ?w ?h) pre (?d, ?d) = Inr (work, out)"
    by (simp add: visit_prefix_cong[OF rm])
  moreover from u have "diffuse_pixel f ?w ?h (x, y) (work, out) = Inl InvalidColor"
    by (simp add: diffuse_pixel_Inl)
  ultimately have "visit (diffuse_pixel f ?w ?h) (pre @ (x, y) # post) (?d, ?d) = Inl InvalidColor"
    by (rule visit_aborts)
  then show ?l using e rm by (simp add: error_diffusion_def Let_def)
qed

lemma matrix_dither_Inl:
  "matrix_dither nm n (Some img) (Some f) = Inl e \<longleftrightarrow>
     e = Failed InvalidColor \<and>
     (\<exists>x y. x < width img \<and> y < height img \<and>
        unusable (resolved_at nm n f (width img) (data img) x y))"
  (is "?l \<longleftrightarrow> ?r")
proof
  let ?v = "visit (\<lambda>(x, y). matrix_pixel nm n f (width img) (data img) y x)
              (row_major (width img) (height img)) (Uint8ClampedArray_new (length (data img)))"
  assume ?l
  then obtain e' where v: "?v = Inl e'" and e: "e = Failed e'"
    by (auto simp: matrix_dither_in_order dither_in_order_def split: sum.splits)
  from matrix_pass_Inl[OF v] have e': "e' = InvalidColor" .
  have "\<not> (\<exists>out. ?v = Inr out)" using v by simp
  with matrix_pass_Inr_iff[of nm n f "width img" "data img" "row_major (width img) (height img)"
      "Uint8ClampedArray_new (length (data img))"]
  have "\<not> (\<forall>(x, y) \<in> set (row_major (width img) (height img)).
               \<not> unusable (resolved_at nm n f (width img) (data img) x y))"
    by blast
  then show ?r using e e' by (auto simp: in_row_major)
next
  let ?v = "visit (\<lambda>(x, y). matrix_pixel nm n f (width img) (data img) y x)
              (row_major (width img) (height img)) (Uint8ClampedArray_new (length (data img)))"
  assume r: ?r
  then have "\<not> (\<forall>(x, y) \<in> set (row_major (width img) (height img)).
               \<not> unusable (resolved_at nm n f (width img) (data img) x y))"
    by (auto simp: in_row_major)
  with matrix_pass_Inr_iff[of nm n f "width img" "data img" "row_major (width img) (height img)"
      "Uint8ClampedArray_new (length (data img))"]
  have "\<not> (\<exists>out. ?v = Inr out)" by blast
  then obtain e' where v: "?v = Inl e'" by (cases ?v) auto
  from matrix_pass_Inl[OF v] v r show ?l
    by (simp add: matrix_dither_in_order dither_in_order_def)
qed

lemma nullFn_unusable: "unusable (nullFn r g b)"
  by (simp add: unusable_def nullFn_def)

text \<open>
  Claim C3, as the code has it. A call of \<open>floydSteinberg\<close>, \<open>bayer\<close> or \<open>ordered\<close> ends
  either with an error or with a complete buffer, never with both. It ends with an error
  exactly when at some pixel it reaches the resolver answers with a missing value or with
  fewer than three entries, and the error is then \<open>Failed InvalidColor\<close>: for
  \<open>floydSteinberg\<close> the pixel follows a prefix of the row-major order that was processed
  without an error and the resolver is asked about the working buffer after that prefix;
  for \<open>bayer\<close> and \<open>ordered\<close> it is any pixel of the image, and the resolver is asked
  about its adjusted source channels. Such an answer is malformed in the sense of the
  specification; an answer with three entries or more is never rejected, whatever its
  entries are.
\<close>

theorem unusable_answer_aborts:
  "(\<forall>e. floydSteinberg (Some img) (Some resolve) = Inl e \<longleftrightarrow>
        e = Failed InvalidColor \<and>
        (\<exists>pre x y post work out.
           row_major (width img) (height img) = pre @ (x, y) # post \<and>
           visit (\<lambda>(x, y). fs_pixel resolve (width img) (height img) y x) pre
             (Uint8ClampedArray_from (data img), Uint8ClampedArray_from (data img)) =
               Inr (work, out) \<and>
           unusable (resolve (channel work (width img) x y 0) (channel work (width img) x y 1)
                       (channel work (width img) x y 2))))
   \<and> (\<forall>e. bayer (Some img) (Some resolve) = Inl e \<longleftrightarrow>
        e = Failed InvalidColor \<and>
        (\<exists>x y. x < width img \<and> y < height img \<and>
           unusable (resolved_at (normalize 64 bayerMatrix) 8 resolve (width img) (data img) x y)))
   \<and> (\<forall>e. ordered (Some img) (Some resolve) = Inl e \<longleftrightarrow>
        e = Failed InvalidColor \<and>
        (\<exists>x y. x < width img \<and> y < height img \<and>
           unusable (resolved_at (normalize 16 orderedMatrix) 4 resolve (width img) (data img) x y)))
   \<and> (\<forall>c. unusable c \<longrightarrow> malformed c)"
  unfolding floydSteinberg_eq bayer_def ordered_def
  by (intro conjI allI impI error_diffusion_Inl matrix_dither_Inl unusable_malformed)

theorem unusable_answer_aborts_witness:
  "unusable (nullFn (Num 200) (Num 150) (Num 130))
   \<and> malformed (nullFn (Num 200) (Num 150) (Num 130))
   \<and> floydSteinberg (Some one_pixel) (Some nullFn) = Inl (Failed InvalidColor)
   \<and> bayer (Some one_pixel) (Some nullFn) = Inl (Failed InvalidColor)
   \<and> ordered (Some one_pixel) (Some nullFn) = Inl (Failed InvalidColor)"
proof -
  note t = unusable_answer_aborts[of one_pixel nullFn]
  from t have tf: "floydSteinberg (Some one_pixel) (Some nullFn) = Inl (Failed InvalidColor) \<longleftrightarrow>
        Failed InvalidColor = Failed InvalidColor \<and>
        (\<exists>pre x y post work out.
           row_major (width one_pixel) (height one_pixel) = pre @ (x, y) # post \<and>
           visit (\<lambda>(x, y). fs_pixel nullFn (width one_pixel) (height one_pixel) y x) pre
             (Uint8ClampedArray_from (data one_pixel), Uint8ClampedArray_from (data one_pixel)) =
               Inr (work, out) \<and>
           unusable (nullFn (channel work (width one_pixel) x y 0)
                       (channel work (width one_pixel) x y 1)
                       (channel work (width one_pixel) x y 2)))"
    by (elim conjE allE)
  from t have tb: "bayer (Some one_pixel) (Some nullFn) = Inl (Failed InvalidColor) \<longleftrightarrow>
        Failed InvalidColor = Failed InvalidColor \<and>
        (\<exists>x y. x < width one_pixel \<and> y < height one_pixel \<and>
           unusable (resolved_at (normalize 64 bayerMatrix) 8 nullFn (width one_pixel)
                       (data one_pixel) x y))"
    by (elim conjE allE)
  from t have tor: "ordered (Some one_pixel) (Some nullFn) = Inl (Failed InvalidColor) \<longleftrightarrow>
        Failed InvalidColor = Failed InvalidColor \<and>
        (\<exists>x y. x < width one_pixel \<and> y < height one_pixel \<and>
           unusable (resolved_at (normalize 16 orderedMatrix) 4 nullFn (width one_pixel)
                       (data one_pixel) x y))"
    by (elim conjE allE)
  from t have tm: "unusable (nullFn (Num 200) (Num 150) (Num 130)) \<longrightarrow>
      malformed (nullFn (Num 200) (Num 150) (Num 130))"
    by (elim conjE allE)
  have rm: "row_major (width one_pixel) (height one_pixel) = [] @ (0, 0) # []"
    by (simp only: one_pixel_fields row_major_1_1 append_Nil)
  have v: "visit (\<lambda>(x, y). fs_pixel nullFn (width one_pixel) (height one_pixel) y x) []
             (Uint8ClampedArray_from (data one_pixel), Uint8ClampedArray_from (data one_pixel)) =
           Inr (Uint8ClampedArray_from (data one_pixel), Uint8ClampedArray_from (data one_pixel))"
    by (simp only: visit.simps)
  have f: "floydSteinberg (Some one_pixel) (Some nullFn) = Inl (Failed InvalidColor)"
    unfolding tf by (intro conjI refl exI, rule rm, rule v, rule nullFn_unusable)
  have u: "unusable (resolved_at nm n nullFn (width one_pixel) (data one_pixel) 0 0)" for nm n
    by (simp add: resolved_at_def unusable_def nullFn_def)
  have lt: "(0::nat) < width one_pixel" "(0::nat) < height one_pixel"
    by (simp_all add: one_pixel_fields)
  have b: "bayer (Some one_pixel) (Some nullFn) = Inl (Failed InvalidColor)"
    unfolding tb by (intro conjI refl exI, rule lt(1), rule lt(2), rule u)
  have ord: "ordered (Some one_pixel) (Some nullFn) = Inl (Failed InvalidColor)"
    unfolding tor by (intro conjI refl exI, rule lt(1), rule lt(2), rule u)
  from tm nullFn_unusable have "malformed (nullFn (Num 200) (Num 150) (Num 130))" by (rule mp)
  with f b ord nullFn_unusable show ?thesis by (intro conjI)
qed

text \<open>
  The resolver \<open>wildFn\<close> answers every question with four entries, of which the first is
  above 255, the second negative and the third not an integer: a malformed value in the
  sense of the specification. None of the three transforms ends with an error; each
  returns a buffer.
\<close>

theorem malformed_answer_accepted:
  "(\<forall>r g b. malformed (wildFn r g b))
   \<and> floydSteinberg (Some one_pixel) (Some wildFn) =
       Inr \<lparr>width = 1, height = 1, data = [255, 0, 2, 40]\<rparr>
   \<and> bayer (Some one_pixel) (Some wildFn) = Inr \<lparr>width = 1, height = 1, data = [255, 0, 2, 40]\<rparr>
   \<and> ordered (Some one_pixel) (Some wildFn) = Inr \<lparr>width = 1, height = 1, data = [255, 0, 2, 40]\<rparr>"
  by (simp add: wildFn_results wildFn_malformed)

section \<open>findClosestColor\<close>





















lemma findClosestColor_all_skipped:
  "findClosestColor (Num 10) (Num 10) (Num 0) (Some [Some [Num 1, Num 2], None]) =
     Some [Num 1, Num 2]"
  "findClosestColor (Num 10) (Num 10) (Num 0) (Some [None, Some [Num 1, Num 2]]) = None"
  by (simp_all add: findClosestColor_def)




section \<open>The worked scenario\<close>

lemma gray_128: "gray (Num 128) (Num 128) (Num 128) = Num (128 - 1 / 2 ^ 46)"
  by code_simp

lemma gray_184: "gray (Num 184) (Num 184) (Num 184) = Num 184"
  by code_simp

lemma gray_155: "gray (Num 155) (Num 155) (Num 155) = Num 155"
  by code_simp

lemma gray_70: "gray (Num 70) (Num 70) (Num 70) = Num 70"
  by code_simp

lemma uniform_gray_pixel_0_0:
  "fs_pixel (monochromeFn (Num 128)) 2 2 0 0
     ([128, 128, 128, 255, 128, 128, 128, 255, 128, 128, 128, 255, 128, 128, 128, 255],
      [128, 128, 128, 255, 128, 128, 128, 255, 128, 128, 128, 255, 128, 128, 128, 255]) =
   Inr ([128, 128, 128, 255, 184, 184, 184, 255, 168, 168, 168, 255, 136, 136, 136, 255],
        [0, 0, 0, 255, 128, 128, 128, 255, 128, 128, 128, 255, 128, 128, 128, 255])"
  by (simp add: eval_simps gray_128)

lemma uniform_gray_pixel_1_0:
  "fs_pixel (monochromeFn (Num 128)) 2 2 0 1
     ([128, 128, 128, 255, 184, 184, 184, 255, 168, 168, 168, 255, 136, 136, 136, 255],
      [0, 0, 0, 255, 128, 128, 128, 255, 128, 128, 128, 255, 128, 128, 128, 255]) =
   Inr ([128, 128, 128, 255, 184, 184, 184, 255, 155, 155, 155, 255, 114, 114, 114, 255],
        [0, 0, 0, 255, 255, 255, 255, 255, 128, 128, 128, 255, 128, 128, 128, 255])"
  by (simp add: eval_simps gray_184)

lemma uniform_gray_pixel_0_1:
  "fs_pixel (monochromeFn (Num 128)) 2 2 1 0
     ([128, 128, 128, 255, 184, 184, 184, 255, 155, 155, 155, 255, 114, 114, 114, 255],
      [0, 0, 0, 255, 255, 255, 255, 255, 128, 128, 128, 255, 128, 128, 128, 255]) =
   Inr ([128, 128, 128, 255, 184, 184, 184, 255, 155, 155, 155, 255, 70, 70, 70, 255],
        [0, 0, 0, 255, 255, 255, 255, 255, 255, 255, 255, 255, 128, 128, 128, 255])"
  by (simp add: eval_simps gray_155)

lemma uniform_gray_pixel_1_1:
  "fs_pixel (monochromeFn (Num 128)) 2 2 1 1
     ([128, 128, 128, 255, 184, 184, 184, 255, 155, 155, 155, 255, 70, 70, 70, 255],
      [0, 0, 0, 255, 255, 255, 255, 255, 255, 255, 255, 255, 128, 128, 128, 255]) =
   Inr ([128, 128, 128, 255, 184, 184, 184, 255, 155, 155, 155, 255, 70, 70, 70, 255],
        [0, 0, 0, 255, 255, 255, 255, 255, 255, 255, 255, 255, 0, 0, 0, 255])"
  by (simp add: eval_simps gray_70)

lemma row_major_2_2: "row_major 2 2 = [(0, 0), (1, 0), (0, 1), (1, 1)]"
  by (simp add: row_major_def upt_rec)

lemma uniform_gray_fields:
  "width uniform_gray = 2" "height uniform_gray = 2"
  "Uint8ClampedArray_from (data uniform_gray) =
     [128, 128, 128, 255, 128, 128, 128, 255, 128, 128, 128, 255, 128, 128, 128, 255]"
  by (simp_all add: uniform_gray_def Uint8ClampedArray_from_def toUint8Clamp_of_nat)

lemma uniform_gray_pass:
  "visit (\<lambda>(x, y). fs_pixel (monochromeFn (Num 128)) 2 2 y x) (row_major 2 2)
     ([128, 128, 128, 255, 128, 128, 128, 255, 128, 128, 128, 255, 128, 128, 128, 255],
      [128, 128, 128, 255, 128, 128, 128, 255, 128, 128, 128, 255, 128, 128, 128, 255]) =
   Inr ([128, 128, 128, 255, 184, 184, 184, 255, 155, 155, 155, 255, 70, 70, 70, 255],
        [0, 0, 0, 255, 255, 255, 255, 255, 255, 255, 255, 255, 0, 0, 0, 255])"
  by (simp only: row_major_2_2 visit.simps prod.case sum.case
      uniform_gray_pixel_0_0 uniform_gray_pixel_1_0 uniform_gray_pixel_0_1 uniform_gray_pixel_1_1)

lemma uniform_gray_result:
  "floydSteinberg (Some uniform_gray) (Some (monochromeFn (Num 128))) =
     Inr \<lparr>width = 2, height = 2,
          data = [0, 0, 0, 255, 255, 255, 255, 255, 255, 255, 255, 255, 0, 0, 0, 255]\<rparr>"
  unfolding floydSteinberg_def Let_def
  by (simp only: option.case prod.case sum.case fs_rows_row_major uniform_gray_fields
      Uint8ClampedArray_from_idem uniform_gray_pass)

text \<open>
  Claim C2, as stated, fails: on the uniform gray 2 x 2 image with the monochrome resolver
  at threshold 128, the top row of the result is not white followed by black.
\<close>

theorem uniform_gray_top_row_not_white_black:
  "\<not> (\<exists>out. floydSteinberg (Some uniform_gray) (Some (monochromeFn (Num 128))) = Inr out
         \<and> take 3 (data out) = [255, 255, 255] \<and> take 3 (drop 4 (data out)) = [0, 0, 0])"
  by (simp add: uniform_gray_result)

text \<open>
  Claim C2, amended. The top row is black followed by white. The binary64 luminance of
  \<open>(128, 128, 128)\<close> is \<open>128 - 2^-46\<close>, below the threshold 128, so pixel \<open>(0, 0)\<close>
  becomes black with error \<open>128 - 0\<close> in each channel; the right neighbour's working
  channels become \<open>128 + 128 * 7 / 16 = 184\<close>, whose luminance 184 is not below 128, so
  pixel \<open>(1, 0)\<close> becomes white.
\<close>

theorem uniform_gray_top_row_black_white:
  "(\<exists>out. floydSteinberg (Some uniform_gray) (Some (monochromeFn (Num 128))) = Inr out
         \<and> take 3 (data out) = [0, 0, 0] \<and> take 3 (drop 4 (data out)) = [255, 255, 255])
   \<and> gray (Num 128) (Num 128) (Num 128) = Num (128 - 1 / 2 ^ 46)
   \<and> jlt (gray (Num 128) (Num 128) (Num 128)) (Num 128)
   \<and> (\<exists>work out.
         fs_pixel (monochromeFn (Num 128)) 2 2 0 0
           (Uint8ClampedArray_from (data uniform_gray), Uint8ClampedArray_from (data uniform_gray))
           = Inr (work, out)
         \<and> channel work 2 1 0 0 = Num 184 \<and> channel work 2 1 0 1 = Num 184
         \<and> channel work 2 1 0 2 = Num 184)
   \<and> \<not> jlt (gray (Num 184) (Num 184) (Num 184)) (Num 128)"
  by (simp add: uniform_gray_result gray_128 gray_184 uniform_gray_fields uniform_gray_pixel_0_0
      channel_def get_def)

section \<open>findClosestMonochromeColor\<close>

lemma mono_200: "findClosestMonochromeColor (Num 200) (Num 200) (Num 200) (Num 128) = white"
  by code_simp

lemma mono_50: "findClosestMonochromeColor (Num 50) (Num 50) (Num 50) (Num 128) = black"
  by code_simp

text \<open>
  Claim C8. \<open>findClosestMonochromeColor\<close> is a total function of its four arguments. It
  compares the luminance \<open>gray r g b\<close>, the binary64 evaluation of
  \<open>0.299 * r + 0.587 * g + 0.114 * b\<close>, with the threshold, where 128 replaces a
  threshold that is not a number; it returns black when the luminance is below and white
  otherwise, so the result is always one of the two. At \<open>(200, 200, 200)\<close> and threshold
  128 it is white, at \<open>(50, 50, 50)\<close> black.
\<close>

theorem findClosestMonochromeColor_total:
  "findClosestMonochromeColor r g b threshold =
     (if jlt (gray r g b) (if isNaN threshold then Num 128 else threshold) then black else white)
   \<and> (findClosestMonochromeColor r g b threshold = black
        \<or> findClosestMonochromeColor r g b threshold = white)
   \<and> findClosestMonochromeColor (Num 200) (Num 200) (Num 200) (Num 128) = white
   \<and> findClosestMonochromeColor (Num 50) (Num 50) (Num 50) (Num 128) = black"
  by (simp add: mono_200 mono_50) (simp add: findClosestMonochromeColor_def black_def white_def)

end
